theory Spec2Isabelle
  imports Complex_Main "HOL-Library.Word" "HOL-Library.Log_Nat"
begin

section \<open>The bouncing logo of dvdlogo.go\<close>

text \<open>
  The program is one Go file. Its logic is \<open>Game.Update\<close> (one call per tick) with its
  helper \<open>Game.handleKeyPresses\<close>, and the construction of the first \<open>Game\<close> in
  \<open>main\<close>. Drawing only reads the state and is not part of the model.

  Conventions of the embedding:
  \<^item> a \<open>float64\<close> is a \<open>real\<close>, and every addition, subtraction, multiplication,
    division and conversion from \<open>int\<close> of the source rounds its exact result with
    \<open>round64\<close>: to the nearest binary64 number, ties to the even mantissa, with the
    gradual underflow of the format. Comparisons and negations are exact. Constant
    expressions of the source (\<open>logoWidth/2\<close>, \<open>screenWidth - logoWidth\<close>) are
    evaluated exactly, as the Go compiler does. Infinities and NaN are outside the
    model: a result of magnitude \<open>2^1024\<close> or more is not turned into an infinity;
    \<open>math.Abs\<close> is \<open>abs\<close>, and \<open>math.Copysign\<close> is written out below;
  \<^item> \<open>cornerHits\<close> is a Go \<open>int\<close>, taken at its 64-bit width: \<open>cornerHits++\<close> wraps
    around, and the field is read as a signed number with \<open>sint\<close>;
  \<^item> \<open>keyState\<close> is a Go map; reading a missing key gives \<open>false\<close>;
  \<^item> what the host library reports in one tick (keys down, mouse button, cursor) is a
    value of type \<open>input\<close>, passed to \<open>Update\<close>.
\<close>

subsection \<open>Constants (lines 22-30)\<close>

definition screenWidth :: real where "screenWidth = 800"
definition screenHeight :: real where "screenHeight = 600"
definition logoWidth :: real where "logoWidth = 120"
definition logoStartVelocity :: real where "logoStartVelocity = 2"
definition logoMaxVelocity :: real where "logoMaxVelocity = 3"
definition cornerTolerance :: real where "cornerTolerance = 5"
definition nudgeAmount :: real where "nudgeAmount = 0.5"

subsection \<open>float64 arithmetic\<close>

text \<open>
  Rounding a real to the nearest integer, ties to even.
\<close>

definition roundEven :: "real \<Rightarrow> int" where
  "roundEven r =
     (let f = \<lfloor>r\<rfloor>
      in if r - real_of_int f < 1 / 2 then f
         else if 1 / 2 < r - real_of_int f then f + 1
         else if even f then f else f + 1)"

text \<open>
  The binary exponent of a number other than 0: the \<open>k\<close> with
  \<open>2^k \<le> \<bar>x\<bar> < 2^(k+1)\<close>, computed from the bit length of an integer.
\<close>

definition binExp :: "real \<Rightarrow> int" where
  "binExp x =
     (if 1 \<le> \<bar>x\<bar> then bitlen \<lfloor>\<bar>x\<bar>\<rfloor> - 1 else - bitlen (\<lceil>1 / \<bar>x\<bar>\<rceil> - 1))"

text \<open>
  The exponent of the last place of a binary64 number near \<open>x\<close>: 52 below the binary
  exponent for a 53-bit mantissa, and never below \<open>-1074\<close>, the exponent of the
  smallest subnormal number.
\<close>

definition ulpExp :: "real \<Rightarrow> int" where
  "ulpExp x = max (binExp x - 52) (- 1074)"

definition roundGrid :: "int \<Rightarrow> real \<Rightarrow> real" where
  "roundGrid q x = real_of_int (roundEven (x / 2 powi q)) * 2 powi q"

definition round64 :: "real \<Rightarrow> real" where
  "round64 x = (if x = 0 then 0 else roundGrid (ulpExp x) x)"

definition isFloat64 :: "real \<Rightarrow> bool" where
  "isFloat64 x = (round64 x = x)"

definition fadd :: "real \<Rightarrow> real \<Rightarrow> real" where
  "fadd x y = round64 (x + y)"

definition fsub :: "real \<Rightarrow> real \<Rightarrow> real" where
  "fsub x y = round64 (x - y)"

definition fmul :: "real \<Rightarrow> real \<Rightarrow> real" where
  "fmul x y = round64 (x * y)"

definition fdiv :: "real \<Rightarrow> real \<Rightarrow> real" where
  "fdiv x y = round64 (x / y)"

text \<open>The conversion \<open>float64(n)\<close> of a Go \<open>int\<close>.\<close>

definition float64 :: "int \<Rightarrow> real" where
  "float64 n = round64 (real_of_int n)"

subsection \<open>The state (lines 32-45) and the input of one tick\<close>

datatype key = KeyEscape | KeyC | KeyQ

text \<open>
  The fields \<open>startTime\<close> and \<open>logoImage\<close> of the Go struct are written once in
  \<open>main\<close> and read only by the drawing code; \<open>Update\<close> never touches them.
\<close>

record game =
  logoX :: real
  logoY :: real
  velocityX :: real
  velocityY :: real
  cornerHits :: "64 word"
  logoHeight :: real
  hitCorner :: bool
  paused :: bool
  terminated :: bool
  keyState :: "key \<rightharpoonup> bool"

record input =
  IsKeyPressed :: "key \<Rightarrow> bool"
  IsMouseButtonPressed :: bool
  CursorPosition :: "int \<times> int"

text \<open>\<open>g.keyState[k]\<close>: the zero value \<open>false\<close> for a key that was never stored.\<close>

definition keyStateAt :: "game \<Rightarrow> key \<Rightarrow> bool" where
  "keyStateAt g k = (case keyState g k of None \<Rightarrow> False | Some b \<Rightarrow> b)"

definition setKeyState :: "key \<Rightarrow> bool \<Rightarrow> game \<Rightarrow> game" where
  "setKeyState k b g = g\<lparr>keyState := (keyState g)(k \<mapsto> b)\<rparr>"

text \<open>\<open>math.Copysign(f, sign)\<close>: the magnitude of \<open>f\<close> with the sign of \<open>sign\<close>.\<close>

definition Copysign :: "real \<Rightarrow> real \<Rightarrow> real" where
  "Copysign f sign = (if sign < 0 then - \<bar>f\<bar> else \<bar>f\<bar>)"

subsection \<open>handleKeyPresses (lines 108-138)\<close>

definition handleEscape :: "input \<Rightarrow> game \<Rightarrow> game" where
  "handleEscape inp g =
     (if IsKeyPressed inp KeyEscape
      then setKeyState KeyEscape True
             (if \<not> keyStateAt g KeyEscape then g\<lparr>paused := \<not> paused g\<rparr> else g)
      else setKeyState KeyEscape False g)"

definition handleContinue :: "input \<Rightarrow> game \<Rightarrow> game" where
  "handleContinue inp g =
     (if IsKeyPressed inp KeyC
      then setKeyState KeyC True
             (if \<not> keyStateAt g KeyC then g\<lparr>paused := False\<rparr> else g)
      else setKeyState KeyC False g)"

definition handleQuit :: "input \<Rightarrow> game \<Rightarrow> game" where
  "handleQuit inp g =
     (if IsKeyPressed inp KeyQ
      then setKeyState KeyQ True (g\<lparr>terminated := True\<rparr>)
      else setKeyState KeyQ False g)"

text \<open>
  The test \<open>if g.paused\<close> of line 119 is made once, after the Escape key was handled:
  both the Continue and the Quit key are then looked at, also when the Continue key has
  just cleared \<open>paused\<close>.
\<close>

definition handleKeyPresses :: "input \<Rightarrow> game \<Rightarrow> game" where
  "handleKeyPresses inp g =
     (let g1 = handleEscape inp g
      in if paused g1 then handleQuit inp (handleContinue inp g1) else g1)"

subsection \<open>The physics of Update (lines 58-103)\<close>

text \<open>Lines 58-60: one Euler step, and the corner flag is reset.\<close>

definition move :: "game \<Rightarrow> game" where
  "move g = g\<lparr>logoX := fadd (logoX g) (velocityX g),
              logoY := fadd (logoY g) (velocityY g),
              hitCorner := False\<rparr>"

text \<open>
  Lines 62-78: the four border tests, in the order left, right, top, bottom. The sums
  of lines 67 and 75 and the difference of line 76 are float64 operations; the
  difference \<open>screenWidth - logoWidth\<close> of line 68 is a constant, 680.
\<close>

definition collideLeft :: "game \<Rightarrow> game" where
  "collideLeft g =
     (if logoX g < 0 then g\<lparr>logoX := 0, velocityX := - velocityX g\<rparr> else g)"

definition collideRight :: "game \<Rightarrow> game" where
  "collideRight g =
     (if fadd (logoX g) logoWidth > screenWidth
      then g\<lparr>logoX := screenWidth - logoWidth, velocityX := - velocityX g\<rparr> else g)"

definition collideTop :: "game \<Rightarrow> game" where
  "collideTop g =
     (if logoY g < 0 then g\<lparr>logoY := 0, velocityY := - velocityY g\<rparr> else g)"

definition collideBottom :: "game \<Rightarrow> game" where
  "collideBottom g =
     (if fadd (logoY g) (logoHeight g) > screenHeight
      then g\<lparr>logoY := fsub screenHeight (logoHeight g), velocityY := - velocityY g\<rparr>
      else g)"

definition collide :: "game \<Rightarrow> game" where
  "collide g = collideBottom (collideTop (collideRight (collideLeft g)))"

text \<open>
  Lines 80-86: the corner test on the position the border tests left. The threshold
  \<open>screenWidth-logoWidth-cornerTolerance\<close> of line 81 is a constant, 675; the threshold
  of line 82 is computed with two float64 subtractions, from left to right.
\<close>

definition touchCorner :: "game \<Rightarrow> game" where
  "touchCorner g =
     (if logoX g < cornerTolerance \<or> logoX g > screenWidth - logoWidth - cornerTolerance
      then (if logoY g < cornerTolerance
               \<or> logoY g > fsub (fsub screenHeight (logoHeight g)) cornerTolerance
            then g\<lparr>cornerHits := cornerHits g + 1, hitCorner := True\<rparr>
            else g)
      else g)"

text \<open>
  Lines 88-103: the mouse nudge. \<open>logoWidth/2\<close> is a constant expression of value 60.
\<close>

definition clampX :: "game \<Rightarrow> game" where
  "clampX g =
     (if \<bar>velocityX g\<bar> > logoMaxVelocity
      then g\<lparr>velocityX := Copysign logoMaxVelocity (velocityX g)\<rparr> else g)"

definition clampY :: "game \<Rightarrow> game" where
  "clampY g =
     (if \<bar>velocityY g\<bar> > logoMaxVelocity
      then g\<lparr>velocityY := Copysign logoMaxVelocity (velocityY g)\<rparr> else g)"

definition nudge :: "input \<Rightarrow> game \<Rightarrow> game" where
  "nudge inp g =
     (if IsMouseButtonPressed inp
      then (let (x, y) = CursorPosition inp;
                dx = fsub (float64 x) (fadd (logoX g) (logoWidth / 2));
                dy = fsub (float64 y) (fadd (logoY g) (fdiv (logoHeight g) 2))
            in clampY (clampX
                 (g\<lparr>velocityX := fadd (velocityX g) (fdiv (fmul dx nudgeAmount) 1000),
                    velocityY := fadd (velocityY g) (fdiv (fmul dy nudgeAmount) 1000)\<rparr>)))
      else g)"

definition advance :: "input \<Rightarrow> game \<Rightarrow> game" where
  "advance inp g = nudge inp (touchCorner (collide (move g)))"

subsection \<open>Update (lines 47-106) and the loop that calls it\<close>

datatype error = Termination

text \<open>\<open>None\<close> is Go's \<open>nil\<close>.\<close>

definition Update :: "input \<Rightarrow> game \<Rightarrow> error option \<times> game" where
  "Update inp g =
     (let g1 = handleKeyPresses inp g
      in if paused g1
         then (if terminated g1 then (Some Termination, g1) else (None, g1))
         else (None, advance inp g1))"

text \<open>
  \<open>ebiten.RunGame\<close> calls \<open>Update\<close> once per tick and returns as soon as \<open>Update\<close>
  returns an error; \<open>main\<close> then ends. The inputs of the ticks are a list; the result
  says whether the loop has returned (\<open>True\<close>) and gives the last state.
\<close>

fun RunGame :: "game \<Rightarrow> input list \<Rightarrow> bool \<times> game" where
  "RunGame g [] = (False, g)"
| "RunGame g (inp # inps) =
     (case Update inp g of
        (Some e, g') \<Rightarrow> (True, g')
      | (None, g') \<Rightarrow> RunGame g' inps)"

text \<open>The states at the end of each tick the loop has run.\<close>

fun trace :: "game \<Rightarrow> input list \<Rightarrow> game list" where
  "trace g [] = []"
| "trace g (inp # inps) =
     (case Update inp g of
        (Some e, g') \<Rightarrow> [g']
      | (None, g') \<Rightarrow> g' # trace g' inps)"

subsection \<open>The first state (main, lines 210-222)\<close>

text \<open>
  Lines 210-211: the logo height for an image of \<open>dx\<close> by \<open>dy\<close> pixels.
\<close>

definition imageLogoHeight :: "int \<Rightarrow> int \<Rightarrow> real" where
  "imageLogoHeight dx dy = fmul (fdiv logoWidth (float64 dx)) (float64 dy)"

text \<open>
  \<open>int(logoHeight)\<close> truncates towards zero. \<open>rand.Intn(n)\<close> returns a number of
  \<open>[0, n)\<close> and panics for \<open>n \<le> 0\<close>: the two random numbers are parameters here, and
  \<open>validStart\<close> says that they are results \<open>rand.Intn\<close> can give, for a logo height
  that is not negative (it is a positive scale times the height of an image).
\<close>

definition goInt :: "real \<Rightarrow> int" where
  "goInt h = (if 0 \<le> h then \<lfloor>h\<rfloor> else \<lceil>h\<rceil>)"

definition validStart :: "int \<Rightarrow> int \<Rightarrow> real \<Rightarrow> bool" where
  "validStart rx ry h =
     (0 \<le> h \<and> 0 \<le> rx \<and> rx < 800 - 120 \<and> 0 \<le> ry \<and> ry < 600 - goInt h)"

definition NewGame :: "int \<Rightarrow> int \<Rightarrow> real \<Rightarrow> game" where
  "NewGame rx ry h =
     \<lparr>logoX = float64 rx, logoY = float64 ry,
      velocityX = logoStartVelocity, velocityY = logoStartVelocity,
      cornerHits = 0, logoHeight = h, hitCorner = False,
      paused = False, terminated = False, keyState = Map.empty\<rparr>"

subsection \<open>Predicates of the claims\<close>

definition positionInBounds :: "game \<Rightarrow> bool" where
  "positionInBounds g =
     (0 \<le> logoX g \<and> logoX g \<le> screenWidth - logoWidth
      \<and> 0 \<le> logoY g \<and> logoY g \<le> screenHeight - logoHeight g)"

text \<open>
  The same bounds with the bottom one widened by \<open>2^-44\<close>, half a unit in the last
  place of a float64 between 512 and 1024.
\<close>

definition positionNearBounds :: "game \<Rightarrow> bool" where
  "positionNearBounds g =
     (0 \<le> logoX g \<and> logoX g \<le> screenWidth - logoWidth
      \<and> 0 \<le> logoY g \<and> logoY g \<le> screenHeight - logoHeight g + 1 / 2 ^ 44)"

text \<open>
  What the border tests establish, in the terms of the code: both coordinates are
  float64 numbers, the left, right and top bounds hold, and either the bottom test of
  line 75 is false or \<open>logoY\<close> is the value line 76 assigns.
\<close>

definition afterBorders :: "game \<Rightarrow> bool" where
  "afterBorders g =
     (isFloat64 (logoX g) \<and> isFloat64 (logoY g)
      \<and> 0 \<le> logoX g \<and> logoX g \<le> screenWidth - logoWidth \<and> 0 \<le> logoY g
      \<and> (fadd (logoY g) (logoHeight g) \<le> screenHeight
           \<or> logoY g = fsub screenHeight (logoHeight g))
      \<and> 0 \<le> logoHeight g \<and> logoHeight g \<le> screenHeight)"

definition velocityBounded :: "game \<Rightarrow> bool" where
  "velocityBounded g =
     (\<bar>velocityX g\<bar> \<le> logoMaxVelocity \<and> \<bar>velocityY g\<bar> \<le> logoMaxVelocity)"

text \<open>Inputs used in the examples.\<close>

definition noInput :: input where
  "noInput = \<lparr>IsKeyPressed = (\<lambda>k. False), IsMouseButtonPressed = False,
              CursorPosition = (0, 0)\<rparr>"

definition keysDown :: "key list \<Rightarrow> input" where
  "keysDown ks = \<lparr>IsKeyPressed = (\<lambda>k. k \<in> set ks), IsMouseButtonPressed = False,
                 CursorPosition = (0, 0)\<rparr>"

definition mouseAt :: "int \<Rightarrow> int \<Rightarrow> input" where
  "mouseAt x y = \<lparr>IsKeyPressed = (\<lambda>k. False), IsMouseButtonPressed = True,
                 CursorPosition = (x, y)\<rparr>"

text \<open>
  The tolerance band of lines 81-82 as a predicate on the position: within
  \<open>cornerTolerance\<close> of the left or the right border, and at the same time within
  \<open>cornerTolerance\<close> of the top or the bottom border, the bottom threshold being the
  float64 value of \<open>screenHeight - logoHeight - cornerTolerance\<close>.
\<close>

definition nearCorner :: "game \<Rightarrow> bool" where
  "nearCorner g =
     ((logoX g < cornerTolerance \<or> logoX g > screenWidth - logoWidth - cornerTolerance)
      \<and> (logoY g < cornerTolerance
           \<or> logoY g > fsub (fsub screenHeight (logoHeight g)) cornerTolerance))"

text \<open>States used in the examples.\<close>

definition pausedGame :: game where
  "pausedGame = snd (RunGame (NewGame 100 100 60) [keysDown [KeyEscape], noInput])"

definition resting :: "64 word \<Rightarrow> game" where
  "resting c =
     \<lparr>logoX = 2, logoY = 2, velocityX = 0, velocityY = 0,
      cornerHits = c, logoHeight = 60, hitCorner = True,
      paused = False, terminated = False, keyState = [KeyEscape \<mapsto> False]\<rparr>"

section \<open>Basic facts\<close>

lemmas const_defs =
  screenWidth_def screenHeight_def logoWidth_def logoStartVelocity_def
  logoMaxVelocity_def cornerTolerance_def nudgeAmount_def
lemmas key_defs = handleKeyPresses_def handleEscape_def handleContinue_def handleQuit_def
  keyStateAt_def setKeyState_def
lemmas collide_defs = collide_def collideLeft_def collideRight_def
  collideTop_def collideBottom_def
lemmas nudge_defs = nudge_def clampX_def clampY_def Copysign_def
lemmas f64_defs = fadd_def fsub_def fmul_def fdiv_def
lemmas phys_defs = advance_def move_def collide_defs touchCorner_def nudge_defs f64_defs

subsection \<open>Rounding to float64\<close>

lemma roundEven_of_int [simp]: "roundEven (real_of_int k) = k"
  by (simp add: roundEven_def)

lemma roundEven_le: "r \<le> real_of_int k \<Longrightarrow> roundEven r \<le> k"
proof -
  assume a: "r \<le> real_of_int k"
  have f: "\<lfloor>r\<rfloor> \<le> k" using a by (simp add: floor_le_iff)
  show ?thesis
  proof (cases "\<lfloor>r\<rfloor> = k")
    case True
    then have "r = real_of_int k" using a by linarith
    then show ?thesis by simp
  next
    case False
    with f have "\<lfloor>r\<rfloor> + 1 \<le> k" by simp
    then show ?thesis by (simp add: roundEven_def Let_def)
  qed
qed

lemma roundEven_ge: "real_of_int k \<le> r \<Longrightarrow> k \<le> roundEven r"
proof -
  assume "real_of_int k \<le> r"
  then have "k \<le> \<lfloor>r\<rfloor>" by (simp add: le_floor_iff)
  then show ?thesis by (simp add: roundEven_def Let_def)
qed

lemma roundEven_err: "\<bar>real_of_int (roundEven r) - r\<bar> \<le> 1 / 2"
  unfolding roundEven_def Let_def by (auto; linarith)

lemma roundEven_minus: "roundEven (- r) = - roundEven r"
proof (cases "r = real_of_int \<lfloor>r\<rfloor>")
  case True
  then obtain k where "r = real_of_int k" ..
  then have "- r = real_of_int (- k)" by simp
  then show ?thesis unfolding \<open>r = real_of_int k\<close> by (simp only: roundEven_of_int)
next
  case False
  then have lt: "real_of_int \<lfloor>r\<rfloor> < r" using of_int_floor_le [of r] by linarith
  have "\<lceil>r\<rceil> = \<lfloor>r\<rfloor> + 1" using False by (simp add: ceiling_altdef)
  then have fl: "\<lfloor>- r\<rfloor> = - \<lfloor>r\<rfloor> - 1" by (simp add: floor_minus)
  show ?thesis
    unfolding roundEven_def Let_def fl by (auto; linarith)
qed


lemma pow2_pos [simp]: "0 < (2::real) powi k"
  by simp

lemma pow2_le_iff [simp]: "(2::real) powi j \<le> 2 powi k \<longleftrightarrow> j \<le> k"
proof
  assume a: "(2::real) powi j \<le> 2 powi k"
  show "j \<le> k"
  proof (rule ccontr)
    assume "\<not> j \<le> k"
    then have "(2::real) powi k < 2 powi j" by (intro power_int_strict_increasing) auto
    with a show False by simp
  qed
next
  assume "j \<le> k"
  then show "(2::real) powi j \<le> 2 powi k" by (intro power_int_increasing) auto
qed

lemma pow2_less_iff [simp]: "(2::real) powi j < 2 powi k \<longleftrightarrow> j < k"
  using pow2_le_iff [of k j] by (simp add: not_le [symmetric] del: pow2_le_iff)

lemma pow2_add: "(2::real) powi (j + k) = 2 powi j * 2 powi k"
  by (simp add: power_int_add)

lemma pow2_nonneg_int: "0 \<le> k \<Longrightarrow> (2::real) powi k = real_of_int (2 ^ nat k)"
  by (simp add: power_int_nonneg_exp)

lemma binExp_bounds:
  assumes "x \<noteq> 0"
  shows "2 powi binExp x \<le> \<bar>x\<bar>" and "\<bar>x\<bar> < 2 powi (binExp x + 1)"
proof -
  have "2 powi binExp x \<le> \<bar>x\<bar> \<and> \<bar>x\<bar> < 2 powi (binExp x + 1)"
  proof (cases "1 \<le> \<bar>x\<bar>")
    case True
    define n where "n = \<lfloor>\<bar>x\<bar>\<rfloor>"
    have n: "0 < n" "real_of_int n \<le> \<bar>x\<bar>" "\<bar>x\<bar> < real_of_int n + 1"
      using True by (simp_all add: n_def)
    from bitlen_bounds [OF n(1)]
    have b: "2 ^ nat (bitlen n - 1) \<le> n" "n < 2 ^ nat (bitlen n)" by simp_all
    have b1: "1 \<le> bitlen n" using n(1) bitlen_eq_zero_iff [of n] bitlen_nonneg [of n] by linarith
    have r1: "(2::real) ^ nat (bitlen n - 1) \<le> real_of_int n"
      using b(1) of_int_le_iff [where ?'a = real, of "2 ^ nat (bitlen n - 1)" n] by simp
    have p1: "(2::real) powi (bitlen n - 1) = 2 ^ nat (bitlen n - 1)"
      using b1 by (simp add: power_int_nonneg_exp)
    have lo: "2 powi (bitlen n - 1) \<le> \<bar>x\<bar>"
      using r1 p1 n(2) by linarith
    have "n + 1 \<le> 2 ^ nat (bitlen n)" using b(2) by simp
    then have r2: "real_of_int n + 1 \<le> (2::real) ^ nat (bitlen n)"
      using of_int_le_iff [where ?'a = real, of "n + 1" "2 ^ nat (bitlen n)"] by simp
    have p2: "(2::real) powi (bitlen n) = 2 ^ nat (bitlen n)"
      using b1 by (simp add: power_int_nonneg_exp)
    have hi: "\<bar>x\<bar> < 2 powi (bitlen n)"
      using r2 p2 n(3) by linarith
    from lo hi True show ?thesis by (simp add: binExp_def n_def)
  next
    case False
    define y where "y = 1 / \<bar>x\<bar>"
    define c where "c = \<lceil>y\<rceil> - 1"
    have y: "1 < y" using False assms by (simp add: y_def)
    have c: "0 < c" "real_of_int c < y" "y \<le> real_of_int c + 1"
      using y by (simp_all add: c_def) linarith+
    from bitlen_bounds [OF c(1)]
    have b: "2 ^ nat (bitlen c - 1) \<le> c" "c < 2 ^ nat (bitlen c)" by simp_all
    have b1: "1 \<le> bitlen c" using c(1) bitlen_eq_zero_iff [of c] bitlen_nonneg [of c] by linarith
    have r1: "(2::real) ^ nat (bitlen c - 1) \<le> real_of_int c"
      using b(1) of_int_le_iff [where ?'a = real, of "2 ^ nat (bitlen c - 1)" c] by simp
    have p1: "(2::real) powi (bitlen c - 1) = 2 ^ nat (bitlen c - 1)"
      using b1 by (simp add: power_int_nonneg_exp)
    have lo: "2 powi (bitlen c - 1) < y"
      using r1 p1 c(2) by linarith
    have "c + 1 \<le> 2 ^ nat (bitlen c)" using b(2) by simp
    then have r2: "real_of_int c + 1 \<le> (2::real) ^ nat (bitlen c)"
      using of_int_le_iff [where ?'a = real, of "c + 1" "2 ^ nat (bitlen c)"] by simp
    have p2: "(2::real) powi (bitlen c) = 2 ^ nat (bitlen c)"
      using b1 by (simp add: power_int_nonneg_exp)
    have hi: "y \<le> 2 powi (bitlen c)"
      using r2 p2 c(3) by linarith
    have x: "\<bar>x\<bar> = 1 / y" "0 < y" using assms by (simp_all add: y_def)
    have "1 / 2 powi (bitlen c) \<le> 1 / y" using hi x(2) by (intro divide_left_mono) simp_all
    then have lo': "2 powi (- bitlen c) \<le> \<bar>x\<bar>" by (simp add: power_int_minus x(1) field_simps)
    have "1 / y < 1 / 2 powi (bitlen c - 1)"
      using lo x(2) by (intro divide_strict_left_mono) simp_all
    moreover have "1 / (2::real) powi (bitlen c - 1) = 2 powi (- bitlen c + 1)"
      using power_int_minus [of "2::real" "bitlen c - 1"] by (simp add: field_simps)
    ultimately have hi': "\<bar>x\<bar> < 2 powi (- bitlen c + 1)" using x(1) by simp
    from lo' hi' False show ?thesis by (simp add: binExp_def c_def y_def)
  qed
  then show "2 powi binExp x \<le> \<bar>x\<bar>" and "\<bar>x\<bar> < 2 powi (binExp x + 1)" by simp_all
qed

lemma binExp_eqI:
  assumes "2 powi k \<le> \<bar>x\<bar>" and "\<bar>x\<bar> < 2 powi (k + 1)"
  shows "binExp x = k"
proof -
  have "0 < \<bar>x\<bar>" using assms(1) pow2_pos [of k] by linarith
  then have x: "x \<noteq> 0" by simp
  have "(2::real) powi k < 2 powi (binExp x + 1)" "(2::real) powi binExp x < 2 powi (k + 1)"
    using binExp_bounds [OF x] assms by linarith+
  then have "k < binExp x + 1" "binExp x < k + 1" by (simp_all only: pow2_less_iff)
  then show ?thesis by simp
qed

lemma binExp_less_iff: "x \<noteq> 0 \<Longrightarrow> binExp x < k \<longleftrightarrow> \<bar>x\<bar> < 2 powi k"
proof
  assume x: "x \<noteq> 0" and "binExp x < k"
  then have "binExp x + 1 \<le> k" by simp
  then have "(2::real) powi (binExp x + 1) \<le> 2 powi k" by simp
  with binExp_bounds(2) [OF x] show "\<bar>x\<bar> < 2 powi k" by linarith
next
  assume x: "x \<noteq> 0" and a: "\<bar>x\<bar> < 2 powi k"
  with binExp_bounds(1) [OF x] have "(2::real) powi binExp x < 2 powi k" by linarith
  then show "binExp x < k" by simp
qed

lemma ulpExp_ge [simp]: "- 1074 \<le> ulpExp x"
  by (simp add: ulpExp_def)

lemma ulpExp_minus [simp]: "ulpExp (- x) = ulpExp x"
  by (simp add: ulpExp_def binExp_def)

lemma ulpExp_le_iff:
  "x \<noteq> 0 \<Longrightarrow> - 1074 \<le> q \<Longrightarrow> ulpExp x \<le> q \<longleftrightarrow> \<bar>x\<bar> < 2 powi (q + 53)"
  using binExp_less_iff [of x "q + 53"] by (auto simp: ulpExp_def)

lemma ulpExp_upper: "x \<noteq> 0 \<Longrightarrow> \<bar>x\<bar> < 2 powi (ulpExp x + 53)"
  using ulpExp_le_iff [of x "ulpExp x"] by simp

lemma ulpExp_mono:
  assumes "x \<noteq> 0" and "\<bar>x\<bar> \<le> \<bar>y\<bar>"
  shows "ulpExp x \<le> ulpExp y"
proof -
  have y: "y \<noteq> 0" using assms by auto
  have "\<bar>x\<bar> < 2 powi (ulpExp y + 53)" using ulpExp_upper [OF y] assms(2) by linarith
  then show ?thesis using ulpExp_le_iff [OF assms(1), of "ulpExp y"] by simp
qed

lemma ulpExp_eqI:
  assumes "2 powi k \<le> \<bar>x\<bar>" and "\<bar>x\<bar> < 2 powi (k + 1)" and "- 1022 \<le> k"
  shows "ulpExp x = k - 52"
  using binExp_eqI [OF assms(1,2)] assms(3) by (simp add: ulpExp_def)

lemma roundGrid_point [simp]: "roundGrid q (real_of_int m * 2 powi q) = real_of_int m * 2 powi q"
  by (simp add: roundGrid_def)

lemma roundGrid_le:
  "x \<le> real_of_int m * 2 powi q \<Longrightarrow> roundGrid q x \<le> real_of_int m * 2 powi q"
proof -
  assume "x \<le> real_of_int m * 2 powi q"
  then have "x / 2 powi q \<le> real_of_int m" by (simp add: pos_divide_le_eq)
  then have "roundEven (x / 2 powi q) \<le> m" by (rule roundEven_le)
  then show ?thesis by (simp add: roundGrid_def)
qed

lemma roundGrid_ge:
  "real_of_int m * 2 powi q \<le> x \<Longrightarrow> real_of_int m * 2 powi q \<le> roundGrid q x"
proof -
  assume "real_of_int m * 2 powi q \<le> x"
  then have "real_of_int m \<le> x / 2 powi q" by (simp add: pos_le_divide_eq)
  then have "m \<le> roundEven (x / 2 powi q)" by (rule roundEven_ge)
  then show ?thesis by (simp add: roundGrid_def)
qed

lemma roundGrid_minus: "roundGrid q (- x) = - roundGrid q x"
  by (simp add: roundGrid_def roundEven_minus)

lemma roundGrid_err: "\<bar>roundGrid q x - x\<bar> \<le> 2 powi q / 2"
proof -
  have "roundGrid q x - x = (real_of_int (roundEven (x / 2 powi q)) - x / 2 powi q) * 2 powi q"
    by (simp add: roundGrid_def algebra_simps)
  then have "\<bar>roundGrid q x - x\<bar>
      = \<bar>real_of_int (roundEven (x / 2 powi q)) - x / 2 powi q\<bar> * 2 powi q"
    by (simp add: abs_mult)
  also have "\<dots> \<le> (1 / 2) * 2 powi q"
    by (intro mult_right_mono roundEven_err) simp
  finally show ?thesis by simp
qed

lemma grid_coarse:
  assumes "q \<le> q'"
  shows "real_of_int m * 2 powi q' = real_of_int (m * 2 ^ nat (q' - q)) * 2 powi q"
proof -
  have "(2::real) powi q' = 2 powi ((q' - q) + q)" by simp
  also have "\<dots> = 2 powi (q' - q) * 2 powi q" by (rule pow2_add)
  also have "(2::real) powi (q' - q) = real_of_int (2 ^ nat (q' - q))"
    using assms by (intro pow2_nonneg_int) simp
  finally show ?thesis by simp
qed

lemma round64_0 [simp]: "round64 0 = 0"
  by (simp add: round64_def)

lemma round64_minus: "round64 (- x) = - round64 x"
  by (simp add: round64_def roundGrid_minus)

lemma round64_representable:
  assumes m: "\<bar>m\<bar> \<le> 2 ^ 53" and q: "- 1074 \<le> q"
  shows "round64 (real_of_int m * 2 powi q) = real_of_int m * 2 powi q"
proof (cases "m = 0")
  case True
  then show ?thesis by simp
next
  case False
  define x where "x = real_of_int m * 2 powi q"
  have x0: "x \<noteq> 0" using False by (simp add: x_def)
  have ax: "\<bar>x\<bar> = real_of_int \<bar>m\<bar> * 2 powi q" by (simp add: x_def abs_mult)
  have "real_of_int \<bar>m\<bar> \<le> real_of_int (2 ^ 53)" using m by (simp only: of_int_le_iff)
  then have le: "\<bar>x\<bar> \<le> 2 powi (q + 53)"
    unfolding ax by (simp add: pow2_add mult.commute)
  show ?thesis
  proof (cases "\<bar>x\<bar> < 2 powi (q + 53)")
    case True
    then have "ulpExp x \<le> q" using ulpExp_le_iff [OF x0 q] by simp
    from grid_coarse [OF this, of m]
    have "x = real_of_int (m * 2 ^ nat (q - ulpExp x)) * 2 powi ulpExp x"
      by (simp only: x_def)
    then have "roundGrid (ulpExp x) x = x" by (metis roundGrid_point)
    then show ?thesis using x0 by (simp add: round64_def x_def)
  next
    case False
    with le have eq: "\<bar>x\<bar> = 2 powi (q + 53)" by simp
    then have "\<bar>m\<bar> = 2 ^ 53"
      unfolding ax by (simp add: pow2_add mult.commute) 
    have u: "ulpExp x = q + 1"
      using ulpExp_eqI [of "q + 53" x] q eq by simp
    from \<open>\<bar>m\<bar> = 2 ^ 53\<close> have "m = 9007199254740992 \<or> m = - 9007199254740992"
      by (simp add: abs_if split: if_splits)
    then have "m = (m div 2) * 2" by auto
    then have "real_of_int m = real_of_int (m div 2) * 2" by (metis of_int_mult of_int_numeral)
    then have "x = real_of_int (m div 2) * 2 powi (q + 1)"
      by (simp add: x_def pow2_add)
    then have "roundGrid (q + 1) x = x" by (metis roundGrid_point)
    then show ?thesis using x0 u by (simp add: round64_def x_def)
  qed
qed


lemma round64_of_int: "\<bar>n\<bar> \<le> 2 ^ 53 \<Longrightarrow> round64 (real_of_int n) = real_of_int n"
  using round64_representable [of n 0] by simp

lemma round64_numeral [simp]:
  "(numeral k :: int) \<le> 9007199254740992 \<Longrightarrow> round64 (numeral k) = numeral k"
  using round64_of_int [of "numeral k"] by simp

lemma round64_neg_numeral [simp]:
  "(numeral k :: int) \<le> 9007199254740992 \<Longrightarrow> round64 (- numeral k) = - numeral k"
  using round64_of_int [of "- numeral k"] by simp

lemma round64_1 [simp]: "round64 1 = 1"
  using round64_of_int [of 1] by simp

lemma round64_mantissa:
  assumes "x \<noteq> 0"
  shows "\<bar>roundEven (x / 2 powi ulpExp x)\<bar> \<le> 2 ^ 53"
proof -
  have "\<bar>x\<bar> < 2 powi (ulpExp x + 53)" using assms by (rule ulpExp_upper)
  then have "\<bar>x\<bar> < 2 ^ 53 * 2 powi ulpExp x" by (simp add: pow2_add mult.commute)
  then have "\<bar>x\<bar> / 2 powi ulpExp x < 2 ^ 53" by (simp add: pos_divide_less_eq)
  then have b: "\<bar>x / 2 powi ulpExp x\<bar> < 9007199254740992" by simp
  from b have b1: "x / 2 powi ulpExp x < 9007199254740992"
    and b2: "- 9007199254740992 < x / 2 powi ulpExp x" by linarith+
  have "x / 2 powi ulpExp x \<le> real_of_int 9007199254740992"
    using b1 by simp
  then have u: "roundEven (x / 2 powi ulpExp x) \<le> 9007199254740992"
    by (rule roundEven_le)
  have "real_of_int (- 9007199254740992) \<le> x / 2 powi ulpExp x"
    using b2 by simp
  then have "- 9007199254740992 \<le> roundEven (x / 2 powi ulpExp x)"
    by (rule roundEven_ge)
  with u show ?thesis by simp
qed

lemma round64_idem [simp]: "round64 (round64 x) = round64 x"
proof (cases "x = 0")
  case True
  then show ?thesis by simp
next
  case False
  then have "round64 x = real_of_int (roundEven (x / 2 powi ulpExp x)) * 2 powi ulpExp x"
    by (simp add: round64_def roundGrid_def)
  moreover have "round64 (real_of_int (roundEven (x / 2 powi ulpExp x)) * 2 powi ulpExp x)
      = real_of_int (roundEven (x / 2 powi ulpExp x)) * 2 powi ulpExp x"
    using round64_mantissa [OF False] by (intro round64_representable) simp_all
  ultimately show ?thesis by simp
qed

lemma isFloat64_round64 [simp]: "isFloat64 (round64 x)"
  by (simp add: isFloat64_def)

lemma round64_nonneg: "0 \<le> x \<Longrightarrow> 0 \<le> round64 x"
  using roundGrid_ge [of 0 "ulpExp x" x] by (simp add: round64_def)

lemma round64_nonpos: "x \<le> 0 \<Longrightarrow> round64 x \<le> 0"
  using round64_nonneg [of "- x"] by (simp add: round64_minus)

lemma roundEven_mono: "r \<le> s \<Longrightarrow> roundEven r \<le> roundEven s"
proof -
  assume rs: "r \<le> s"
  then have fl: "\<lfloor>r\<rfloor> \<le> \<lfloor>s\<rfloor>" by (rule floor_mono)
  show ?thesis
  proof (cases "\<lfloor>r\<rfloor> = \<lfloor>s\<rfloor>")
    case True
    with rs show ?thesis unfolding roundEven_def Let_def by auto
  next
    case False
    with fl have "\<lfloor>r\<rfloor> + 1 \<le> \<lfloor>s\<rfloor>" by simp
    moreover have "roundEven r \<le> \<lfloor>r\<rfloor> + 1" "\<lfloor>s\<rfloor> \<le> roundEven s"
      by (simp_all add: roundEven_def Let_def)
    ultimately show ?thesis by linarith
  qed
qed

lemma roundGrid_mono: "x \<le> y \<Longrightarrow> roundGrid q x \<le> roundGrid q y"
  by (simp add: roundGrid_def roundEven_mono divide_right_mono)

lemma round64_mono_pos:
  assumes "0 < x" and "x \<le> y"
  shows "round64 x \<le> round64 y"
proof -
  have x0: "x \<noteq> 0" and y0: "y \<noteq> 0" using assms by auto
  have le: "ulpExp x \<le> ulpExp y" using assms by (intro ulpExp_mono) auto
  show ?thesis
  proof (cases "ulpExp x = ulpExp y")
    case True
    then show ?thesis using x0 y0 assms(2) by (simp add: round64_def roundGrid_mono)
  next
    case False
    with le have lt: "ulpExp x \<le> ulpExp y - 1" by simp
    have "- 1074 \<le> ulpExp y - 1" using lt ulpExp_ge [of x] by linarith
    from ulpExp_le_iff [OF x0 this] lt
    have "\<bar>x\<bar> < 2 powi (ulpExp y - 1 + 53)" by simp
    moreover have "ulpExp y - 1 + 53 = ulpExp y + 52" by simp
    ultimately have xg: "\<bar>x\<bar> < 2 powi (ulpExp y + 52)" by (simp only:)
    have "ulpExp y \<noteq> - 1074" using lt ulpExp_ge [of x] by linarith
    then have "ulpExp y = binExp y - 52" by (simp add: ulpExp_def max_def split: if_splits)
    then have yg: "2 powi (ulpExp y + 52) \<le> \<bar>y\<bar>" using binExp_bounds(1) [OF y0] by simp
    define g :: real where "g = real_of_int (2 ^ 52) * 2 powi ulpExp y"
    have g: "g = 2 powi (ulpExp y + 52)" by (simp add: g_def pow2_add mult.commute)
    have gx: "g = real_of_int (2 ^ 52 * 2 ^ nat (ulpExp y - ulpExp x)) * 2 powi ulpExp x"
      unfolding g_def using le by (rule grid_coarse)
    have "x \<le> g" using xg assms(1) g by simp
    then have "roundGrid (ulpExp x) x \<le> g" unfolding gx by (rule roundGrid_le)
    moreover have "g \<le> y" using yg assms g by simp
    then have "g \<le> roundGrid (ulpExp y) y" unfolding g_def by (rule roundGrid_ge)
    ultimately show ?thesis using x0 y0 by (simp add: round64_def)
  qed
qed

lemma round64_mono: "x \<le> y \<Longrightarrow> round64 x \<le> round64 y"
proof -
  assume xy: "x \<le> y"
  consider "0 < x" | "y < 0" | "x \<le> 0" "0 \<le> y" by linarith
  then show ?thesis
  proof cases
    case 1
    then show ?thesis using xy by (rule round64_mono_pos)
  next
    case 2
    then have "round64 (- y) \<le> round64 (- x)" using xy by (intro round64_mono_pos) auto
    then show ?thesis by (simp add: round64_minus)
  next
    case 3
    then show ?thesis using round64_nonpos [of x] round64_nonneg [of y] by linarith
  qed
qed

lemma round64_err_1024:
  assumes "\<bar>x\<bar> < 1024"
  shows "\<bar>round64 x - x\<bar> \<le> 1 / 2 ^ 44"
proof (cases "x = 0")
  case True
  then show ?thesis by simp
next
  case False
  have "\<bar>x\<bar> < 2 powi (- 43 + 53)" using assms by simp
  then have "ulpExp x \<le> - 43" using ulpExp_le_iff [OF False, of "- 43"] by simp
  then have a: "(2::real) powi ulpExp x \<le> 2 powi (- 43)" by (simp only: pow2_le_iff)
  have b: "(2::real) powi (- 43) = 2 / 2 ^ 44" by simp
  have c: "\<bar>round64 x - x\<bar> \<le> 2 powi ulpExp x / 2"
    using False roundGrid_err [of "ulpExp x" x] by (simp add: round64_def)
  from a b c show ?thesis by linarith
qed

lemma round64_eval:
  assumes "2 powi k \<le> \<bar>x\<bar>" and "\<bar>x\<bar> < 2 powi (k + 1)" and "- 1022 \<le> k"
  shows "round64 x = roundGrid (k - 52) x"
proof -
  have "0 < \<bar>x\<bar>" using assms(1) pow2_pos [of k] by linarith
  then have "x \<noteq> 0" by simp
  then show ?thesis using ulpExp_eqI [OF assms] by (simp add: round64_def)
qed

lemma float64_numeral [simp]:
  "(numeral k :: int) \<le> 9007199254740992 \<Longrightarrow> float64 (numeral k) = numeral k"
  by (simp add: float64_def)

lemma float64_neg_numeral [simp]:
  "(numeral k :: int) \<le> 9007199254740992 \<Longrightarrow> float64 (- numeral k) = - numeral k"
  by (simp add: float64_def)

lemma float64_0 [simp]: "float64 0 = 0"
  by (simp add: float64_def)

lemma float64_exact: "\<bar>n\<bar> \<le> 2 ^ 53 \<Longrightarrow> float64 n = real_of_int n"
  by (simp add: float64_def round64_of_int)

lemma isFloat64_numeral [simp]:
  "(numeral k :: int) \<le> 9007199254740992 \<Longrightarrow> isFloat64 (numeral k)"
  by (simp add: isFloat64_def)

lemma isFloat64_0 [simp]: "isFloat64 0"
  by (simp add: isFloat64_def)

lemma isFloat64_ops [simp]:
  "isFloat64 (fadd x y)" "isFloat64 (fsub x y)" "isFloat64 (fmul x y)" "isFloat64 (fdiv x y)"
  "isFloat64 (float64 n)"
  by (simp_all add: f64_defs float64_def)


subsection \<open>Which fields each part writes\<close>

lemma handleKeyPresses_physics [simp]:
  "logoX (handleKeyPresses inp g) = logoX g"
  "logoY (handleKeyPresses inp g) = logoY g"
  "velocityX (handleKeyPresses inp g) = velocityX g"
  "velocityY (handleKeyPresses inp g) = velocityY g"
  "cornerHits (handleKeyPresses inp g) = cornerHits g"
  "logoHeight (handleKeyPresses inp g) = logoHeight g"
  "hitCorner (handleKeyPresses inp g) = hitCorner g"
  by (simp_all add: key_defs Let_def)

lemma nudge_keeps [simp]:
  "logoX (nudge inp g) = logoX g"
  "logoY (nudge inp g) = logoY g"
  "cornerHits (nudge inp g) = cornerHits g"
  "logoHeight (nudge inp g) = logoHeight g"
  "hitCorner (nudge inp g) = hitCorner g"
  "paused (nudge inp g) = paused g"
  "terminated (nudge inp g) = terminated g"
  "keyState (nudge inp g) = keyState g"
  by (simp_all add: nudge_def clampX_def clampY_def Let_def split: prod.split)

lemma nudge_not_pressed [simp]: "\<not> IsMouseButtonPressed inp \<Longrightarrow> nudge inp g = g"
  by (simp add: nudge_def)

lemma touchCorner_keeps [simp]:
  "logoX (touchCorner g) = logoX g"
  "logoY (touchCorner g) = logoY g"
  "velocityX (touchCorner g) = velocityX g"
  "velocityY (touchCorner g) = velocityY g"
  "logoHeight (touchCorner g) = logoHeight g"
  "paused (touchCorner g) = paused g"
  "terminated (touchCorner g) = terminated g"
  "keyState (touchCorner g) = keyState g"
  by (simp_all add: touchCorner_def)

lemma collide_keeps [simp]:
  "cornerHits (collide g) = cornerHits g"
  "logoHeight (collide g) = logoHeight g"
  "hitCorner (collide g) = hitCorner g"
  "paused (collide g) = paused g"
  "terminated (collide g) = terminated g"
  "keyState (collide g) = keyState g"
  by (simp_all add: collide_defs)

lemma collide_abs_velocity [simp]:
  "\<bar>velocityX (collide g)\<bar> = \<bar>velocityX g\<bar>"
  "\<bar>velocityY (collide g)\<bar> = \<bar>velocityY g\<bar>"
  by (simp_all add: collide_defs)

lemma move_keeps [simp]:
  "velocityX (move g) = velocityX g"
  "velocityY (move g) = velocityY g"
  "cornerHits (move g) = cornerHits g"
  "logoHeight (move g) = logoHeight g"
  "paused (move g) = paused g"
  "terminated (move g) = terminated g"
  "keyState (move g) = keyState g"
  "hitCorner (move g) = False"
  by (simp_all add: move_def)

lemma advance_session [simp]:
  "paused (advance inp g) = paused g"
  "terminated (advance inp g) = terminated g"
  "keyState (advance inp g) = keyState g"
  "logoHeight (advance inp g) = logoHeight g"
  by (simp_all add: advance_def)

subsection \<open>The two ways through Update, and runs of ticks\<close>

lemma Update_cases:
  "Update inp g = (None, advance inp (handleKeyPresses inp g))
     \<and> \<not> paused (handleKeyPresses inp g)
   \<or> snd (Update inp g) = handleKeyPresses inp g \<and> paused (handleKeyPresses inp g)"
  by (simp add: Update_def Let_def)

lemma Update_Termination_iff:
  "fst (Update inp g) = Some Termination
     \<longleftrightarrow> paused (handleKeyPresses inp g) \<and> terminated (handleKeyPresses inp g)"
  by (simp add: Update_def Let_def)

lemma Update_logoHeight [simp]: "logoHeight (snd (Update inp g)) = logoHeight g"
  using Update_cases [of inp g] by auto

lemma Update_paused: "paused (snd (Update inp g)) = paused (handleKeyPresses inp g)"
  using Update_cases [of inp g] by auto

lemma Update_terminated:
  "terminated (snd (Update inp g)) = terminated (handleKeyPresses inp g)"
  using Update_cases [of inp g] by auto

lemma Update_keyStateAt:
  "keyStateAt (snd (Update inp g)) k = keyStateAt (handleKeyPresses inp g) k"
  using Update_cases [of inp g] by (auto simp: keyStateAt_def)

lemma RunGame_invariant:
  assumes step: "\<And>g inp. P g \<Longrightarrow> P (snd (Update inp g))"
  shows "P g \<Longrightarrow> P (snd (RunGame g inps))"
proof (induction inps arbitrary: g)
  case Nil
  then show ?case by simp
next
  case (Cons inp inps)
  have a: "P (snd (Update inp g))" using Cons.prems by (rule step)
  show ?case
  proof (cases "Update inp g")
    case (Pair e g')
    with a Cons.IH [of g'] show ?thesis by (cases e) simp_all
  qed
qed

lemma pausedGame_fields:
  "paused pausedGame" "\<not> terminated pausedGame"
  "\<not> keyStateAt pausedGame KeyEscape" "\<not> keyStateAt pausedGame KeyC"
  "logoX pausedGame = 100" "logoY pausedGame = 100"
  "velocityX pausedGame = 2" "velocityY pausedGame = 2"
  by (simp_all add: pausedGame_def Update_def key_defs NewGame_def keysDown_def
      noInput_def const_defs)

section \<open>The claims\<close>

subsection \<open>C1: the terminated flag and the end of the loop\<close>

lemma running_tick_without_escape:
  assumes "\<not> paused g" and "\<not> IsKeyPressed inp KeyEscape"
  shows "fst (Update inp g) = None \<and> \<not> paused (snd (Update inp g))
       \<and> terminated (snd (Update inp g)) = terminated g"
proof -
  have "\<not> paused (handleKeyPresses inp g)"
    "terminated (handleKeyPresses inp g) = terminated g"
    using assms by (simp_all add: key_defs Let_def)
  then show ?thesis
    by (simp add: Update_def Let_def)
qed

lemma running_without_escape:
  "\<not> paused g \<Longrightarrow> list_all (\<lambda>inp. \<not> IsKeyPressed inp KeyEscape) inps \<Longrightarrow>
   fst (RunGame g inps) = False \<and> \<not> paused (snd (RunGame g inps))
   \<and> terminated (snd (RunGame g inps)) = terminated g"
proof (induction inps arbitrary: g)
  case Nil
  then show ?case by simp
next
  case (Cons inp inps)
  obtain e g1 where u: "Update inp g = (e, g1)" by (cases "Update inp g")
  have "fst (Update inp g) = None \<and> \<not> paused (snd (Update inp g))
       \<and> terminated (snd (Update inp g)) = terminated g"
    using Cons.prems by (simp add: running_tick_without_escape)
  with u have s: "e = None" "\<not> paused g1" "terminated g1 = terminated g" by simp_all
  from Cons.IH [of g1] s Cons.prems u show ?case by simp
qed

lemma continue_and_quit_tick:
  "fst (Update (keysDown [KeyC, KeyQ]) pausedGame) = None"
  "terminated (snd (Update (keysDown [KeyC, KeyQ]) pausedGame))"
  "\<not> paused (snd (Update (keysDown [KeyC, KeyQ]) pausedGame))"
  "logoX (snd (Update (keysDown [KeyC, KeyQ]) pausedGame)) = 102"
  "logoY (snd (Update (keysDown [KeyC, KeyQ]) pausedGame)) = 102"
  by (simp_all add: pausedGame_def Update_def key_defs phys_defs NewGame_def keysDown_def
      noInput_def const_defs)

text \<open>
  Claim C1 says that once \<open>terminated\<close> is set the loop ends by the next tick, and
  that no physics step runs on a tick with the session paused or terminated. The code
  at the input that breaks it: the session is paused (Escape on the first tick, no key
  on the second), and on the third tick the Continue and the Quit key are both down.
  That tick sets \<open>terminated\<close>, clears \<open>paused\<close>, returns no error and moves the logo;
  after any number \<open>n\<close> of further ticks without a key the loop has still not returned,
  \<open>terminated\<close> is still set, and the logo keeps moving. The loop returns only on the
  next tick that pauses.
\<close>

theorem continue_and_quit_runs_on:
  "paused pausedGame \<and> \<not> terminated pausedGame \<and> logoX pausedGame = 100
   \<and> fst (Update (keysDown [KeyC, KeyQ]) pausedGame) = None
   \<and> terminated (snd (Update (keysDown [KeyC, KeyQ]) pausedGame))
   \<and> logoX (snd (Update (keysDown [KeyC, KeyQ]) pausedGame)) = 102
   \<and> fst (RunGame (snd (Update (keysDown [KeyC, KeyQ]) pausedGame))
            (replicate n noInput)) = False
   \<and> terminated (snd (RunGame (snd (Update (keysDown [KeyC, KeyQ]) pausedGame))
            (replicate n noInput)))
   \<and> logoX (snd (RunGame (NewGame 100 100 60)
            [keysDown [KeyEscape], noInput, keysDown [KeyC, KeyQ], noInput, noInput])) = 106
   \<and> fst (RunGame (NewGame 100 100 60)
            [keysDown [KeyEscape], noInput, keysDown [KeyC, KeyQ], noInput, noInput]) = False
   \<and> fst (RunGame (NewGame 100 100 60)
            [keysDown [KeyEscape], noInput, keysDown [KeyC, KeyQ], noInput, noInput,
             keysDown [KeyEscape]]) = True"
proof -
  have "list_all (\<lambda>inp. \<not> IsKeyPressed inp KeyEscape) (replicate n noInput)"
    by (induction n) (simp_all add: noInput_def)
  from running_without_escape [OF continue_and_quit_tick(3) this]
  have "fst (RunGame (snd (Update (keysDown [KeyC, KeyQ]) pausedGame))
            (replicate n noInput)) = False
   \<and> terminated (snd (RunGame (snd (Update (keysDown [KeyC, KeyQ]) pausedGame))
            (replicate n noInput)))"
    by (simp add: continue_and_quit_tick)
  moreover have "logoX (snd (RunGame (NewGame 100 100 60)
            [keysDown [KeyEscape], noInput, keysDown [KeyC, KeyQ], noInput, noInput])) = 106"
    "fst (RunGame (NewGame 100 100 60)
            [keysDown [KeyEscape], noInput, keysDown [KeyC, KeyQ], noInput, noInput]) = False"
    "fst (RunGame (NewGame 100 100 60)
            [keysDown [KeyEscape], noInput, keysDown [KeyC, KeyQ], noInput, noInput,
             keysDown [KeyEscape]]) = True"
    by (simp_all add: Update_def key_defs phys_defs NewGame_def keysDown_def
      noInput_def const_defs)
  ultimately show ?thesis
    by (simp add: continue_and_quit_tick pausedGame_fields)
qed

subsection \<open>C2: the position stays in the viewport\<close>

lemma collide_logoX:
  "logoX (collide g) =
     (let x = (if logoX g < 0 then 0 else logoX g)
      in if fadd x logoWidth > screenWidth then screenWidth - logoWidth else x)"
  by (simp add: collide_defs Let_def)

lemma collide_logoY:
  "logoY (collide g) =
     (let y = (if logoY g < 0 then 0 else logoY g)
      in if fadd y (logoHeight g) > screenHeight then fsub screenHeight (logoHeight g)
         else y)"
  by (simp add: collide_defs Let_def)

text \<open>
  A float64 above 680 is at least one unit in the last place above it, so the sum of
  line 67 is exact there and the right border test misses no overshoot.
\<close>

lemma float64_above_680:
  assumes "isFloat64 x" and "680 < x"
  shows "680 + 1 / 2 ^ 43 \<le> x"
proof -
  have x0: "x \<noteq> 0" using assms(2) by auto
  define n where "n = roundEven (x / 2 powi ulpExp x)"
  have x: "x = real_of_int n * 2 powi ulpExp x"
    using assms(1) x0 by (simp add: isFloat64_def round64_def roundGrid_def n_def)
  have "\<not> \<bar>x\<bar> < 2 powi (- 44 + 53)" using assms(2) by simp
  then have q: "- 43 \<le> ulpExp x" using ulpExp_le_iff [OF x0, of "- 44"] by simp
  define m where "m = n * 2 ^ nat (ulpExp x - (- 43))"
  have xm: "x = real_of_int m * 2 powi (- 43)"
    using grid_coarse [OF q, of n] x by (simp only: m_def)
  have "real_of_int (680 * 2 ^ 43) * 2 powi (- 43) < real_of_int m * 2 powi (- 43)"
    using assms(2) xm by simp
  then have "real_of_int (680 * 2 ^ 43) < real_of_int m"
    by (simp only: mult_less_cancel_right_pos pow2_pos)
  then have "680 * 2 ^ 43 < m" by (simp only: of_int_less_iff)
  then have "680 * 2 ^ 43 + 1 \<le> m" by simp
  then have "real_of_int (680 * 2 ^ 43 + 1) \<le> real_of_int m" by (simp only: of_int_le_iff)
  then have "real_of_int (680 * 2 ^ 43 + 1) * 2 powi (- 43) \<le> real_of_int m * 2 powi (- 43)"
    by (simp only: mult_le_cancel_right_pos pow2_pos)
  then show ?thesis using xm by simp
qed

lemma right_test_exact:
  assumes "isFloat64 x" and "fadd x logoWidth \<le> screenWidth"
  shows "x \<le> screenWidth - logoWidth"
proof (rule ccontr)
  assume "\<not> x \<le> screenWidth - logoWidth"
  then have "680 < x" by (simp add: const_defs)
  from float64_above_680 [OF assms(1) this] have "800 + 1 / 2 ^ 43 \<le> x + 120" by simp
  then have "round64 (800 + 1 / 2 ^ 43) \<le> round64 (x + 120)" by (rule round64_mono)
  moreover have "round64 (800 + 1 / 2 ^ 43) = 800 + 1 / 2 ^ 43"
    using round64_representable [of "800 * 2 ^ 43 + 1" "- 43"] by (simp add: field_simps)
  ultimately have "800 < round64 (x + 120)" by simp
  with assms(2) show False by (simp add: fadd_def const_defs)
qed

lemma collide_afterBorders:
  assumes "isFloat64 (logoX g)" and "isFloat64 (logoY g)"
    and "0 \<le> logoHeight g" and "logoHeight g \<le> screenHeight"
  shows "afterBorders (collide g)"
proof -
  define x where "x = (if logoX g < 0 then 0 else logoX g)"
  define y where "y = (if logoY g < 0 then 0 else logoY g)"
  have x: "isFloat64 x" "0 \<le> x" using assms(1) by (simp_all add: x_def)
  have y: "isFloat64 y" "0 \<le> y" using assms(2) by (simp_all add: y_def)
  have cx: "logoX (collide g) = (if fadd x logoWidth > screenWidth then 680 else x)"
    by (simp add: collide_logoX x_def Let_def const_defs)
  have cy: "logoY (collide g)
      = (if fadd y (logoHeight g) > screenHeight then fsub screenHeight (logoHeight g) else y)"
    by (simp add: collide_logoY y_def Let_def)
  have px: "isFloat64 (logoX (collide g)) \<and> 0 \<le> logoX (collide g)
      \<and> logoX (collide g) \<le> screenWidth - logoWidth"
  proof (cases "fadd x logoWidth > screenWidth")
    case True
    then show ?thesis by (simp add: cx const_defs)
  next
    case False
    then have "x \<le> screenWidth - logoWidth" using x(1) by (intro right_test_exact) simp_all
    with False x show ?thesis by (simp add: cx)
  qed
  have "0 \<le> fsub screenHeight (logoHeight g)"
    using assms(4) by (simp add: fsub_def round64_nonneg)
  then have py: "isFloat64 (logoY (collide g)) \<and> 0 \<le> logoY (collide g)
      \<and> (fadd (logoY (collide g)) (logoHeight g) \<le> screenHeight
           \<or> logoY (collide g) = fsub screenHeight (logoHeight g))"
    using y by (simp add: cy)
  from px py assms(3,4) show ?thesis by (simp add: afterBorders_def)
qed

lemma advance_afterBorders:
  assumes "0 \<le> logoHeight g" and "logoHeight g \<le> screenHeight"
  shows "afterBorders (advance inp g)"
proof -
  have "afterBorders (collide (move g))"
    using assms by (intro collide_afterBorders) (simp_all add: move_def)
  then show ?thesis by (simp add: afterBorders_def advance_def)
qed

lemma Update_afterBorders:
  assumes "afterBorders g"
  shows "afterBorders (snd (Update inp g))"
proof -
  have h: "0 \<le> logoHeight (handleKeyPresses inp g)"
    "logoHeight (handleKeyPresses inp g) \<le> screenHeight"
    using assms by (simp_all add: afterBorders_def)
  have "afterBorders (handleKeyPresses inp g)" using assms by (simp add: afterBorders_def)
  with advance_afterBorders [OF h, of inp] Update_cases [of inp g] show ?thesis by auto
qed

lemma goInt_upper: "h < real_of_int (goInt h) + 1"
  unfolding goInt_def by (simp; linarith)

lemma NewGame_afterBorders:
  assumes "validStart rx ry h"
  shows "afterBorders (NewGame rx ry h)"
proof -
  from assms have h0: "0 \<le> h" and x: "0 \<le> rx" "rx \<le> 680"
    and y: "0 \<le> ry" "ry + goInt h + 1 \<le> 600"
    by (simp_all add: validStart_def)
  have g0: "0 \<le> goInt h" using h0 by (simp add: goInt_def)
  have "real_of_int (ry + goInt h + 1) \<le> 600" using y(2) by linarith
  then have sum: "real_of_int ry + h \<le> 600" using goInt_upper [of h] by simp
  have fx: "float64 rx = real_of_int rx" using x by (intro float64_exact) simp
  have fy: "float64 ry = real_of_int ry" using y g0 by (intro float64_exact) simp
  have "round64 (real_of_int ry + h) \<le> round64 600" using sum by (rule round64_mono)
  then have b: "fadd (real_of_int ry) h \<le> 600" by (simp add: fadd_def)
  have r: "0 \<le> real_of_int ry" "0 \<le> real_of_int rx" "real_of_int rx \<le> 680"
    using x y by simp_all
  have hh: "h \<le> 600" using sum r(1) by linarith
  have fl: "isFloat64 (real_of_int rx)" "isFloat64 (real_of_int ry)"
    using isFloat64_ops(5) [of rx] isFloat64_ops(5) [of ry] fx fy by simp_all
  from b r h0 hh fl show ?thesis
    by (simp add: afterBorders_def NewGame_def fx fy const_defs)
qed

lemma afterBorders_near:
  assumes "afterBorders g"
  shows "positionNearBounds g"
proof -
  from assms have y0: "0 \<le> logoY g" and h: "0 \<le> logoHeight g" "logoHeight g \<le> 600"
    and d: "round64 (logoY g + logoHeight g) \<le> 600
            \<or> logoY g = round64 (600 - logoHeight g)"
    by (simp_all add: afterBorders_def f64_defs const_defs)
  have "logoY g \<le> 600 - logoHeight g + 1 / 2 ^ 44"
    using d
  proof
    assume a: "round64 (logoY g + logoHeight g) \<le> 600"
    have "logoY g + logoHeight g < 1024"
    proof (rule ccontr)
      assume "\<not> logoY g + logoHeight g < 1024"
      then have "1024 \<le> logoY g + logoHeight g" by simp
      then have "round64 1024 \<le> round64 (logoY g + logoHeight g)"
        by (rule round64_mono)
      with a show False by simp
    qed
    then have "\<bar>logoY g + logoHeight g\<bar> < 1024" using y0 h(1) by simp
    from round64_err_1024 [OF this] a show ?thesis by linarith
  next
    assume a: "logoY g = round64 (600 - logoHeight g)"
    have "\<bar>600 - logoHeight g\<bar> < 1024" using h by simp
    from round64_err_1024 [OF this] a show ?thesis by linarith
  qed
  with assms show ?thesis by (simp add: afterBorders_def positionNearBounds_def const_defs)
qed

lemma Update_near_bounds:
  assumes "positionNearBounds g" and "0 \<le> logoHeight g" and "logoHeight g \<le> screenHeight"
  shows "positionNearBounds (snd (Update inp g))"
proof -
  have h: "0 \<le> logoHeight (handleKeyPresses inp g)"
    "logoHeight (handleKeyPresses inp g) \<le> screenHeight"
    using assms by simp_all
  have "positionNearBounds (handleKeyPresses inp g)"
    using assms(1) by (simp add: positionNearBounds_def)
  with afterBorders_near [OF advance_afterBorders [OF h, of inp]] Update_cases [of inp g]
  show ?thesis by auto
qed

text \<open>
  Claim C2, as amended. If the position before a tick is within
  \<open>[0, screenWidth - logoWidth] \<times> [0, screenHeight - logoHeight + 2^-44]\<close> and the logo
  height is between 0 and the viewport height, the position after \<open>Update\<close> is within
  the same bounds; and from every first state that \<open>main\<close> can build, the state at the
  end of every run of ticks is within these bounds. The left, right and top bounds
  are those of the claim; the bottom one is wider by \<open>2^-44\<close>, because line 75
  compares the rounded sum \<open>logoY + logoHeight\<close> with \<open>screenHeight\<close>.
\<close>

theorem position_stays_near_bounds:
  "(positionNearBounds g \<and> 0 \<le> logoHeight g \<and> logoHeight g \<le> screenHeight
      \<longrightarrow> positionNearBounds (snd (Update inp g)))
   \<and> (validStart rx ry h
      \<longrightarrow> positionNearBounds (snd (RunGame (NewGame rx ry h) inps)))"
proof -
  have "afterBorders (snd (RunGame (NewGame rx ry h) inps))" if "validStart rx ry h"
    using Update_afterBorders NewGame_afterBorders [OF that]
    by (rule RunGame_invariant)
  then show ?thesis
    using Update_near_bounds [of g inp] afterBorders_near by blast
qed

lemma imageLogoHeight_29_116: "imageLogoHeight 29 116 = 480 + 1 / 2 ^ 44"
proof -
  have n: "float64 29 = 29" "float64 116 = 116" by simp_all
  have a: "fdiv logoWidth 29 = 4658896166245341 / 2 ^ 50"
    unfolding fdiv_def logoWidth_def
    by (subst round64_eval [of 2]) (simp_all add: roundGrid_def roundEven_def Let_def)
  have b: "fmul (4658896166245341 / 2 ^ 50) 116 = 480 + 1 / 2 ^ 44"
    unfolding fmul_def
    by (subst round64_eval [of 8]) (simp_all add: roundGrid_def roundEven_def Let_def)
  show ?thesis by (simp only: imageLogoHeight_def n a b)
qed

lemma bottom_sum_rounds_down: "fadd 120 (imageLogoHeight 29 116) = 600"
proof -
  have "round64 (600 + 1 / 2 ^ 44) = 600"
    by (subst round64_eval [of 9]) (simp_all add: roundGrid_def roundEven_def Let_def)
  then show ?thesis by (simp add: fadd_def imageLogoHeight_29_116)
qed

lemma bottom_bound_29_116: "fsub screenHeight (imageLogoHeight 29 116) = 120 - 1 / 2 ^ 44"
  using round64_representable [of "120 * 2 ^ 44 - 1" "- 44"]
  by (simp add: fsub_def imageLogoHeight_29_116 const_defs field_simps)

theorem position_stays_near_bounds_witness:
  "positionNearBounds (NewGame 0 118 (imageLogoHeight 29 116))
   \<and> 0 \<le> logoHeight (NewGame 0 118 (imageLogoHeight 29 116))
   \<and> logoHeight (NewGame 0 118 (imageLogoHeight 29 116)) \<le> screenHeight
   \<and> positionNearBounds (snd (Update noInput (NewGame 0 118 (imageLogoHeight 29 116))))
   \<and> validStart 0 118 (imageLogoHeight 29 116)
   \<and> positionNearBounds (snd (RunGame (NewGame 0 118 (imageLogoHeight 29 116))
                                  [noInput, noInput]))"
  using position_stays_near_bounds
          [of "NewGame 0 118 (imageLogoHeight 29 116)" noInput 0 118
              "imageLogoHeight 29 116" "[noInput, noInput]"]
  by (simp add: positionNearBounds_def NewGame_def validStart_def goInt_def const_defs
      imageLogoHeight_29_116)

text \<open>
  Claim C2 as stated fails for a logo image of 29 by 116 pixels, whose height on
  screen is \<open>480 + 2^-44\<close>. From the first state with the logo at \<open>(0, 118)\<close>, within
  bounds, one tick without input moves the logo to \<open>logoY = 120\<close>. The sum
  \<open>logoY + logoHeight = 600 + 2^-44\<close> rounds to 600, the test of line 75 is false, and
  the tick ends with \<open>logoY = 120\<close>, above \<open>screenHeight - logoHeight\<close> both as a real
  number and as line 76 would compute it, and with \<open>velocityY\<close> still 2.
\<close>

theorem bottom_border_rounding:
  "validStart 0 118 (imageLogoHeight 29 116)
   \<and> positionInBounds (NewGame 0 118 (imageLogoHeight 29 116))
   \<and> logoY (snd (Update noInput (NewGame 0 118 (imageLogoHeight 29 116)))) = 120
   \<and> velocityY (snd (Update noInput (NewGame 0 118 (imageLogoHeight 29 116)))) = 2
   \<and> screenHeight - logoHeight (snd (Update noInput (NewGame 0 118 (imageLogoHeight 29 116))))
       < 120
   \<and> fsub screenHeight (imageLogoHeight 29 116) < 120
   \<and> \<not> positionInBounds (snd (Update noInput (NewGame 0 118 (imageLogoHeight 29 116))))"
proof -
  define g where "g = NewGame 0 118 (imageLogoHeight 29 116)"
  define g1 where "g1 = handleKeyPresses noInput g"
  have k: "\<not> paused g1"
    by (simp add: g1_def g_def key_defs noInput_def NewGame_def)
  have m: "logoY (move g1) = 120" "velocityY (move g1) = 2"
    "logoHeight (move g1) = imageLogoHeight 29 116"
    by (simp_all add: g1_def g_def move_def NewGame_def fadd_def const_defs)
  have y: "logoY (collide (move g1)) = 120" "velocityY (collide (move g1)) = 2"
    using m bottom_sum_rounds_down
    by (simp_all add: collide_defs const_defs)
  have u: "snd (Update noInput g) = advance noInput g1"
    using k by (simp add: Update_def g1_def)
  have "\<not> IsMouseButtonPressed noInput" by (simp add: noInput_def)
  then have r: "logoY (snd (Update noInput g)) = 120"
    "velocityY (snd (Update noInput g)) = 2"
    using y by (simp_all add: u advance_def)
  have v: "validStart 0 118 (imageLogoHeight 29 116)"
    by (simp add: validStart_def goInt_def imageLogoHeight_29_116)
  have p: "positionInBounds g"
    by (simp add: positionInBounds_def g_def NewGame_def imageLogoHeight_29_116 const_defs)
  have b: "screenHeight - logoHeight (snd (Update noInput g)) < 120"
    by (simp add: g_def NewGame_def imageLogoHeight_29_116 const_defs)
  have f: "fsub screenHeight (imageLogoHeight 29 116) < 120"
    by (simp add: bottom_bound_29_116)
  have n: "\<not> positionInBounds (snd (Update noInput g))"
    using r(1) b by (simp add: positionInBounds_def)
  from v p r b f n show ?thesis by (simp add: g_def)
qed

subsection \<open>C3: the velocity stays within the maximum\<close>

lemma clamp_bounded: "velocityBounded (clampY (clampX g))"
  by (simp add: velocityBounded_def clampX_def clampY_def Copysign_def logoMaxVelocity_def)

lemma nudge_pressed_bounded: "IsMouseButtonPressed inp \<Longrightarrow> velocityBounded (nudge inp g)"
  by (simp add: nudge_def Let_def clamp_bounded split: prod.split)

lemma advance_velocityBounded:
  "velocityBounded g \<Longrightarrow> velocityBounded (advance inp g)"
proof (cases "IsMouseButtonPressed inp")
  case True
  then show ?thesis by (simp add: advance_def nudge_pressed_bounded)
next
  case False
  assume "velocityBounded g"
  with False show ?thesis by (simp add: advance_def velocityBounded_def)
qed

lemma Update_velocityBounded:
  "velocityBounded g \<Longrightarrow> velocityBounded (snd (Update inp g))"
  using Update_cases [of inp g] advance_velocityBounded [of "handleKeyPresses inp g" inp]
  by (auto simp: velocityBounded_def)

lemma NewGame_velocityBounded: "velocityBounded (NewGame rx ry h)"
  by (simp add: velocityBounded_def NewGame_def const_defs)

text \<open>
  Claim C3. \<open>Update\<close> keeps both velocity components within \<open>logoMaxVelocity\<close> in
  magnitude; a tick that applies the mouse nudge ends within the bound whatever the
  velocity was; the first state has both components of magnitude \<open>logoStartVelocity\<close>,
  and the bound holds at the end of every run of ticks from it.
\<close>

theorem velocity_stays_bounded:
  "(velocityBounded g \<longrightarrow> velocityBounded (snd (Update inp g)))
   \<and> (IsMouseButtonPressed inp \<and> \<not> paused (handleKeyPresses inp g)
        \<longrightarrow> velocityBounded (snd (Update inp g)))
   \<and> \<bar>velocityX (NewGame rx ry h)\<bar> = logoStartVelocity
   \<and> \<bar>velocityY (NewGame rx ry h)\<bar> = logoStartVelocity
   \<and> velocityBounded (snd (RunGame (NewGame rx ry h) inps))"
proof -
  have "velocityBounded (snd (RunGame (NewGame rx ry h) inps))"
    using Update_velocityBounded NewGame_velocityBounded
    by (rule RunGame_invariant)
  moreover have "IsMouseButtonPressed inp \<and> \<not> paused (handleKeyPresses inp g)
        \<longrightarrow> velocityBounded (snd (Update inp g))"
    using Update_cases [of inp g] by (auto simp: advance_def nudge_pressed_bounded)
  ultimately show ?thesis
    using Update_velocityBounded [of g inp] by (simp add: NewGame_def const_defs)
qed

theorem velocity_stays_bounded_witness:
  "velocityBounded (NewGame 679 0 60)
   \<and> velocityBounded (snd (Update (mouseAt 100740 32) (NewGame 679 0 60)))
   \<and> IsMouseButtonPressed (mouseAt 100740 32)
   \<and> \<not> paused (handleKeyPresses (mouseAt 100740 32) (NewGame 679 0 60))
   \<and> velocityX (snd (Update (mouseAt 100740 32) (NewGame 679 0 60))) = 3
   \<and> velocityBounded (snd (RunGame (NewGame 679 0 60) [mouseAt 100740 32, noInput]))"
  using velocity_stays_bounded
          [of "NewGame 679 0 60" "mouseAt 100740 32" 679 0 60 "[mouseAt 100740 32, noInput]"]
  by (simp add: velocityBounded_def NewGame_def const_defs
      Update_def key_defs phys_defs mouseAt_def)

subsection \<open>C4: the corner counter\<close>

lemma advance_corner:
  "hitCorner (advance inp g) = nearCorner (collide (move g))"
  "cornerHits (advance inp g) =
     (if nearCorner (collide (move g)) then cornerHits g + 1 else cornerHits g)"
  by (simp_all add: advance_def touchCorner_def nearCorner_def)

lemma Update_cornerHits:
  "cornerHits (snd (Update inp g)) = cornerHits g
   \<or> cornerHits (snd (Update inp g)) = cornerHits g + 1"
  using Update_cases [of inp g] by (auto simp: advance_corner)

lemma sint_succ:
  fixes w :: "64 word"
  assumes "sint w < 9223372036854775807"
  shows "sint (w + 1) = sint w + 1"
proof -
  have lo: "- (2 ^ 63) \<le> sint w" using sint_ge [of w] by simp
  have "sint (w + 1) = signed_take_bit 63 (sint w + 1)"
    by (simp add: sint_word_ariths)
  also have "\<dots> = sint w + 1"
    using lo assms by (simp add: signed_take_bit_int_eq_self)
  finally show ?thesis .
qed

lemma Update_cornerHits_sint:
  assumes "sint (cornerHits g) < 9223372036854775807"
  shows "sint (cornerHits (snd (Update inp g))) = sint (cornerHits g)
       \<or> sint (cornerHits (snd (Update inp g))) = sint (cornerHits g) + 1"
  using Update_cornerHits [of inp g] sint_succ [OF assms] by auto

lemma RunGame_cornerHits:
  "0 \<le> sint (cornerHits g) \<Longrightarrow>
   sint (cornerHits g) + int (length inps) \<le> 9223372036854775807 \<Longrightarrow>
   sint (cornerHits g) \<le> sint (cornerHits (snd (RunGame g inps)))
   \<and> sint (cornerHits (snd (RunGame g inps))) \<le> sint (cornerHits g) + int (length inps)"
proof (induction inps arbitrary: g)
  case Nil
  then show ?case by simp
next
  case (Cons inp inps)
  obtain e g1 where u: "Update inp g = (e, g1)" by (cases "Update inp g")
  have "sint (cornerHits g) < 9223372036854775807" using Cons.prems by simp
  from Update_cornerHits_sint [OF this, of inp] u
  have s: "sint (cornerHits g1) = sint (cornerHits g)
           \<or> sint (cornerHits g1) = sint (cornerHits g) + 1"
    by simp
  show ?case
  proof (cases e)
    case None
    have "0 \<le> sint (cornerHits g1)"
      "sint (cornerHits g1) + int (length inps) \<le> 9223372036854775807"
      using s Cons.prems by auto
    from Cons.IH [OF this] s u None show ?thesis by auto
  next
    case (Some a)
    with s u show ?thesis by auto
  qed
qed

text \<open>
  Claim C4, as amended. As long as the counter is below the largest value of its type,
  \<open>2^63 - 1\<close>, one tick leaves it unchanged or increases it by exactly 1, for every
  state and every input. From the first state, a run of at most \<open>2^63 - 1\<close> ticks ends
  with a counter between 0 and the number of ticks.
\<close>

theorem cornerHits_step:
  "(sint (cornerHits g) < 9223372036854775807
      \<longrightarrow> sint (cornerHits (snd (Update inp g))) = sint (cornerHits g)
        \<or> sint (cornerHits (snd (Update inp g))) = sint (cornerHits g) + 1)
   \<and> (int (length inps) \<le> 9223372036854775807
      \<longrightarrow> 0 \<le> sint (cornerHits (snd (RunGame (NewGame rx ry h) inps)))
        \<and> sint (cornerHits (snd (RunGame (NewGame rx ry h) inps))) \<le> int (length inps))"
  using Update_cornerHits_sint [of g inp] RunGame_cornerHits [of "NewGame rx ry h" inps]
  by (simp add: NewGame_def)

theorem cornerHits_step_witness:
  "sint (cornerHits (NewGame 0 0 60)) < 9223372036854775807
   \<and> sint (cornerHits (snd (Update noInput (NewGame 0 0 60))))
       = sint (cornerHits (NewGame 0 0 60)) + 1
   \<and> int (length [noInput, noInput, noInput, noInput]) \<le> 9223372036854775807
   \<and> 0 \<le> sint (cornerHits (snd (RunGame (NewGame 0 0 60)
                                       [noInput, noInput, noInput, noInput])))
   \<and> sint (cornerHits (snd (RunGame (NewGame 0 0 60)
                                  [noInput, noInput, noInput, noInput])))
       \<le> int (length [noInput, noInput, noInput, noInput])"
  using cornerHits_step [of "NewGame 0 0 60" noInput "[noInput, noInput, noInput, noInput]" 0 0 60]
  by (simp add: NewGame_def Update_def key_defs phys_defs noInput_def const_defs)

lemma Update_resting: "Update noInput (resting c) = (None, resting (c + 1))"
  by (simp add: Update_def key_defs phys_defs const_defs noInput_def resting_def)

lemma RunGame_resting:
  "RunGame (resting c) (replicate n noInput) = (False, resting (c + of_nat n))"
  by (induction n arbitrary: c) (simp_all add: Update_resting add.commute add.left_commute)

lemma Update_click: "Update (mouseAt (- 3938) (- 3968)) (NewGame 0 0 60) = (None, resting 1)"
  by (simp add: Update_def key_defs phys_defs const_defs mouseAt_def resting_def NewGame_def)

lemma RunGame_click:
  "RunGame (NewGame 0 0 60) (mouseAt (- 3938) (- 3968) # replicate n noInput)
     = (False, resting (1 + of_nat n))"
  by (simp add: Update_click RunGame_resting)

text \<open>
  Claim C4 as stated, for every reachable state, fails at the top of the counter's
  range. Take the first state with the logo at
  \<open>(0, 0)\<close>: one tick with the mouse button held and the cursor at \<open>(-3938, -3968)\<close>
  stops the logo at \<open>(2, 2)\<close>, inside the tolerance band, where every tick counts a
  hit. After \<open>2^63 - 2\<close> more ticks the counter is \<open>2^63 - 1\<close>, and the next tick takes
  it to \<open>-2^63\<close>.
\<close>

theorem cornerHits_wraps:
  "validStart 0 0 60
   \<and> sint (cornerHits (snd (RunGame (NewGame 0 0 60)
        (mouseAt (- 3938) (- 3968) # replicate 9223372036854775806 noInput))))
       = 9223372036854775807
   \<and> sint (cornerHits (snd (Update noInput (snd (RunGame (NewGame 0 0 60)
        (mouseAt (- 3938) (- 3968) # replicate 9223372036854775806 noInput))))))
       = - 9223372036854775808"
  by (simp add: RunGame_click Update_resting validStart_def goInt_def del: RunGame.simps)
    (simp add: resting_def)

subsection \<open>C5: the session state machine\<close>

lemma escape_tracked:
  "keyStateAt (handleKeyPresses inp g) KeyEscape = IsKeyPressed inp KeyEscape"
  by (simp add: key_defs Let_def)

lemma continue_tracked:
  "paused (handleKeyPresses inp g) \<Longrightarrow>
     keyStateAt (handleKeyPresses inp g) KeyC = IsKeyPressed inp KeyC"
  by (auto simp: key_defs Let_def split: if_splits)

lemma running_to_paused:
  "\<not> paused g \<Longrightarrow> IsKeyPressed inp KeyEscape \<Longrightarrow> \<not> keyStateAt g KeyEscape \<Longrightarrow>
   \<not> (IsKeyPressed inp KeyC \<and> \<not> keyStateAt g KeyC) \<Longrightarrow> paused (handleKeyPresses inp g)"
  by (auto simp: key_defs Let_def)

lemma escape_and_continue_stay_running:
  "\<not> paused g \<Longrightarrow> IsKeyPressed inp KeyEscape \<Longrightarrow> \<not> keyStateAt g KeyEscape \<Longrightarrow>
   IsKeyPressed inp KeyC \<Longrightarrow> \<not> keyStateAt g KeyC \<Longrightarrow> \<not> paused (handleKeyPresses inp g)"
  by (simp add: key_defs Let_def)

lemma paused_escape_to_running:
  "paused g \<Longrightarrow> IsKeyPressed inp KeyEscape \<Longrightarrow> \<not> keyStateAt g KeyEscape \<Longrightarrow>
   \<not> paused (handleKeyPresses inp g)"
  by (simp add: key_defs Let_def)

lemma paused_continue_to_running:
  "paused g \<Longrightarrow> IsKeyPressed inp KeyC \<Longrightarrow> \<not> keyStateAt g KeyC \<Longrightarrow>
   \<not> paused (handleKeyPresses inp g)"
  by (simp add: key_defs Let_def)

lemma paused_quit:
  "paused g \<Longrightarrow> \<not> (IsKeyPressed inp KeyEscape \<and> \<not> keyStateAt g KeyEscape) \<Longrightarrow>
   IsKeyPressed inp KeyQ \<Longrightarrow> terminated (handleKeyPresses inp g)"
  by (auto simp: key_defs Let_def)

lemma held_escape_step:
  "keyStateAt g KeyEscape \<Longrightarrow> IsKeyPressed inp KeyEscape \<Longrightarrow> \<not> IsKeyPressed inp KeyC \<Longrightarrow>
   paused (handleKeyPresses inp g) = paused g
   \<and> keyStateAt (handleKeyPresses inp g) KeyEscape"
  by (auto simp: key_defs Let_def)

lemma fresh_escape_step:
  "\<not> keyStateAt g KeyEscape \<Longrightarrow> IsKeyPressed inp KeyEscape \<Longrightarrow> \<not> IsKeyPressed inp KeyC \<Longrightarrow>
   paused (handleKeyPresses inp g) = (\<not> paused g)
   \<and> keyStateAt (handleKeyPresses inp g) KeyEscape"
  by (auto simp: key_defs Let_def)

lemma held_escape_run:
  "keyStateAt g KeyEscape \<Longrightarrow>
   list_all (\<lambda>inp. IsKeyPressed inp KeyEscape \<and> \<not> IsKeyPressed inp KeyC) inps \<Longrightarrow>
   paused (snd (RunGame g inps)) = paused g"
proof (induction inps arbitrary: g)
  case Nil
  then show ?case by simp
next
  case (Cons inp inps)
  obtain e g1 where u: "Update inp g = (e, g1)" by (cases "Update inp g")
  have "paused g1 = paused g \<and> keyStateAt g1 KeyEscape"
    using held_escape_step [of g inp] Cons.prems u
      Update_paused [of inp g] Update_keyStateAt [of inp g KeyEscape] by simp
  with Cons.IH [of g1] Cons.prems u show ?case by (cases e) simp_all
qed

lemma pressed_escape_run:
  assumes "\<not> keyStateAt g KeyEscape" and "inps \<noteq> []"
    and "list_all (\<lambda>inp. IsKeyPressed inp KeyEscape \<and> \<not> IsKeyPressed inp KeyC) inps"
  shows "paused (snd (RunGame g inps)) = (\<not> paused g)"
proof (cases inps)
  case Nil
  with assms show ?thesis by simp
next
  case (Cons inp rest)
  obtain e g1 where u: "Update inp g = (e, g1)" by (cases "Update inp g")
  have a: "paused g1 = (\<not> paused g) \<and> keyStateAt g1 KeyEscape"
    using fresh_escape_step [of g inp] assms Cons u
      Update_paused [of inp g] Update_keyStateAt [of inp g KeyEscape] by simp
  have "paused (snd (RunGame g1 rest)) = paused g1"
    using held_escape_run [of g1 rest] a assms(3) Cons by simp
  with a u Cons show ?thesis by (cases e) simp_all
qed

text \<open>
  Claim C5, as amended. \<open>keyState\<close> holds, for Escape, whether the key was down on the
  previous tick, and for the Continue key the same whenever the previous tick ended
  paused. With "fresh" meaning down now and not recorded as down:
  \<^item> from Running, a fresh Escape press leads to Paused, provided the Continue key does
    not count as a fresh press on the same tick;
  \<^item> from Paused, a fresh Escape press leads to Running, and so does a fresh Continue
    press;
  \<^item> from Paused, with no fresh Escape press on the tick, the Quit key being down sets
    \<open>terminated\<close> on that tick, whatever it was on the tick before;
  \<^item> Escape going down and staying down for any number of ticks (Continue key up)
    toggles \<open>paused\<close> exactly once.
\<close>

theorem session_transitions:
  "keyStateAt (snd (Update inp g)) KeyEscape = IsKeyPressed inp KeyEscape
   \<and> (paused (snd (Update inp g))
        \<longrightarrow> keyStateAt (snd (Update inp g)) KeyC = IsKeyPressed inp KeyC)
   \<and> (\<not> paused g \<and> IsKeyPressed inp KeyEscape \<and> \<not> keyStateAt g KeyEscape
        \<and> \<not> (IsKeyPressed inp KeyC \<and> \<not> keyStateAt g KeyC)
        \<longrightarrow> paused (snd (Update inp g)))
   \<and> (paused g \<and> IsKeyPressed inp KeyEscape \<and> \<not> keyStateAt g KeyEscape
        \<longrightarrow> \<not> paused (snd (Update inp g)))
   \<and> (paused g \<and> IsKeyPressed inp KeyC \<and> \<not> keyStateAt g KeyC
        \<longrightarrow> \<not> paused (snd (Update inp g)))
   \<and> (paused g \<and> \<not> (IsKeyPressed inp KeyEscape \<and> \<not> keyStateAt g KeyEscape)
        \<and> IsKeyPressed inp KeyQ
        \<longrightarrow> terminated (snd (Update inp g)))
   \<and> (\<not> keyStateAt g KeyEscape \<and> inps \<noteq> []
        \<and> list_all (\<lambda>i. IsKeyPressed i KeyEscape \<and> \<not> IsKeyPressed i KeyC) inps
        \<longrightarrow> paused (snd (RunGame g inps)) = (\<not> paused g))"
  using escape_tracked [of inp g] continue_tracked [of inp g] running_to_paused [of g inp]
    paused_escape_to_running [of g inp] paused_continue_to_running [of g inp]
    paused_quit [of g inp] pressed_escape_run [of g inps]
  by (simp add: Update_paused Update_terminated Update_keyStateAt)

theorem session_transitions_witness:
  "\<not> paused (NewGame 100 100 60) \<and> IsKeyPressed (keysDown [KeyEscape]) KeyEscape
   \<and> \<not> keyStateAt (NewGame 100 100 60) KeyEscape
   \<and> \<not> IsKeyPressed (keysDown [KeyEscape]) KeyC
   \<and> paused (snd (Update (keysDown [KeyEscape]) (NewGame 100 100 60)))
   \<and> \<not> keyStateAt (snd (Update (keysDown [KeyEscape]) (NewGame 100 100 60))) KeyC
   \<and> paused pausedGame \<and> \<not> keyStateAt pausedGame KeyEscape
   \<and> \<not> paused (snd (Update (keysDown [KeyEscape]) pausedGame))
   \<and> IsKeyPressed (keysDown [KeyC]) KeyC \<and> \<not> keyStateAt pausedGame KeyC
   \<and> \<not> paused (snd (Update (keysDown [KeyC]) pausedGame))
   \<and> \<not> IsKeyPressed (keysDown [KeyQ]) KeyEscape \<and> IsKeyPressed (keysDown [KeyQ]) KeyQ
   \<and> terminated (snd (Update (keysDown [KeyQ]) pausedGame))
   \<and> list_all (\<lambda>i. IsKeyPressed i KeyEscape \<and> \<not> IsKeyPressed i KeyC)
        [keysDown [KeyEscape], keysDown [KeyEscape, KeyQ], keysDown [KeyEscape]]
   \<and> paused (snd (RunGame (NewGame 100 100 60)
        [keysDown [KeyEscape], keysDown [KeyEscape, KeyQ], keysDown [KeyEscape]]))"
  using session_transitions [of "keysDown [KeyEscape]" "NewGame 100 100 60"
          "[keysDown [KeyEscape], keysDown [KeyEscape, KeyQ], keysDown [KeyEscape]]"]
    session_transitions [of "keysDown [KeyEscape]" pausedGame "[]"]
    session_transitions [of "keysDown [KeyC]" pausedGame "[]"]
    session_transitions [of "keysDown [KeyQ]" pausedGame "[]"]
  by (simp add: pausedGame_def Update_def key_defs phys_defs NewGame_def keysDown_def
      noInput_def const_defs)

text \<open>
  Claim C5 as stated says that from Running a fresh Escape press leads to Paused. After a
  tick without a key, Escape and the Continue key go down on the same tick. Escape sets
  \<open>paused\<close>, the Continue key clears it again, and the tick runs the physics.
\<close>

theorem escape_with_continue_stays_running:
  "\<not> IsKeyPressed noInput KeyEscape
   \<and> \<not> paused (snd (Update noInput (NewGame 100 100 60)))
   \<and> IsKeyPressed (keysDown [KeyEscape, KeyC]) KeyEscape
   \<and> \<not> paused (snd (Update (keysDown [KeyEscape, KeyC])
                         (snd (Update noInput (NewGame 100 100 60)))))
   \<and> logoX (snd (Update (keysDown [KeyEscape, KeyC])
                         (snd (Update noInput (NewGame 100 100 60))))) = 104"
  by (simp add: Update_def key_defs phys_defs NewGame_def keysDown_def noInput_def
      const_defs)

subsection \<open>C6: a paused session is frozen\<close>

lemma Update_paused_frozen:
  "paused (snd (Update inp g)) \<Longrightarrow>
     logoX (snd (Update inp g)) = logoX g \<and> logoY (snd (Update inp g)) = logoY g
     \<and> velocityX (snd (Update inp g)) = velocityX g
     \<and> velocityY (snd (Update inp g)) = velocityY g"
  using Update_cases [of inp g] by auto

text \<open>
  Claim C6. Over any number of ticks whose inputs keep the session paused (every tick
  ends with \<open>paused\<close> set), position and velocity at the end of every tick are those
  from before the first one.
\<close>

theorem pause_freeze:
  "list_all paused (trace g inps) \<Longrightarrow>
   list_all (\<lambda>g'. logoX g' = logoX g \<and> logoY g' = logoY g
                \<and> velocityX g' = velocityX g \<and> velocityY g' = velocityY g)
     (trace g inps)"
proof (induction inps arbitrary: g)
  case Nil
  then show ?case by simp
next
  case (Cons inp inps)
  obtain e g1 where u: "Update inp g = (e, g1)" by (cases "Update inp g")
  have p: "paused g1" using Cons.prems u by (cases e) simp_all
  then have f: "logoX g1 = logoX g \<and> logoY g1 = logoY g
     \<and> velocityX g1 = velocityX g \<and> velocityY g1 = velocityY g"
    using Update_paused_frozen [of inp g] u by simp
  show ?case
  proof (cases e)
    case None
    then have "list_all paused (trace g1 inps)" using Cons.prems u by simp
    from Cons.IH [OF this] f u None show ?thesis by simp
  next
    case (Some a)
    with f u show ?thesis by simp
  qed
qed

theorem pause_freeze_witness:
  "list_all paused (trace pausedGame [noInput, mouseAt 0 0, keysDown [KeyQ]])
   \<and> length (trace pausedGame [noInput, mouseAt 0 0, keysDown [KeyQ]]) = 3
   \<and> list_all (\<lambda>g'. logoX g' = 100 \<and> logoY g' = 100
                  \<and> velocityX g' = 2 \<and> velocityY g' = 2)
       (trace pausedGame [noInput, mouseAt 0 0, keysDown [KeyQ]])"
proof -
  have t: "list_all paused (trace pausedGame [noInput, mouseAt 0 0, keysDown [KeyQ]])
     \<and> length (trace pausedGame [noInput, mouseAt 0 0, keysDown [KeyQ]]) = 3"
    by (simp add: pausedGame_def Update_def key_defs NewGame_def keysDown_def
        noInput_def mouseAt_def)
  with pause_freeze [of pausedGame "[noInput, mouseAt 0 0, keysDown [KeyQ]]"]
  show ?thesis by (simp add: pausedGame_fields del: trace.simps)
qed

subsection \<open>C7: the corner test\<close>

text \<open>
  The bottom threshold of the tolerance band is computed in float64. For a logo
  height between 0 and the viewport height it is within \<open>2^-43\<close> of the exact value
  \<open>screenHeight - logoHeight - cornerTolerance\<close>.
\<close>

lemma corner_threshold_near_exact:
  assumes "0 \<le> h" and "h \<le> screenHeight"
  shows "\<bar>fsub (fsub screenHeight h) cornerTolerance - (screenHeight - h - cornerTolerance)\<bar>
           \<le> 1 / 2 ^ 43"
proof -
  define a where "a = round64 (600 - h)"
  have "\<bar>600 - h\<bar> < 1024" using assms by (simp add: const_defs)
  from round64_err_1024 [OF this] have e1: "\<bar>a - (600 - h)\<bar> \<le> 1 / 2 ^ 44"
    by (simp add: a_def)
  have h: "0 \<le> h" "h \<le> 600" using assms by (simp_all add: const_defs)
  have s: "(1::real) / 2 ^ 44 \<le> 1" by simp
  from e1 h s have "\<bar>a - 5\<bar> < 1024" by linarith
  from round64_err_1024 [OF this] have e2: "\<bar>round64 (a - 5) - (a - 5)\<bar> \<le> 1 / 2 ^ 44" .
  have t: "(1::real) / 2 ^ 44 + 1 / 2 ^ 44 = 1 / 2 ^ 43" by simp
  from e1 e2 t have "\<bar>round64 (a - 5) - (600 - h - 5)\<bar> \<le> 1 / 2 ^ 43" by linarith
  then show ?thesis by (simp add: f64_defs const_defs a_def)
qed

text \<open>
  An instance at the edge of the band: a logo image of 58 by 29 pixels has the height
  \<open>60 + 2^-47\<close> on screen. From the first state with the logo at \<open>(0, 533)\<close>, one tick
  without input ends at \<open>(2, 535)\<close>; the threshold of line 82 rounds to 535, and
  \<open>535 > 535\<close> is false, so the tick counts no hit.
\<close>

lemma imageLogoHeight_58_29: "imageLogoHeight 58 29 = 60 + 1 / 2 ^ 47"
proof -
  have n: "float64 58 = 58" "float64 29 = 29" by simp_all
  have a: "fdiv logoWidth 58 = 4658896166245341 / 2 ^ 51"
    unfolding fdiv_def logoWidth_def
    by (subst round64_eval [of 1]) (simp_all add: roundGrid_def roundEven_def Let_def)
  have b: "fmul (4658896166245341 / 2 ^ 51) 29 = 60 + 1 / 2 ^ 47"
    unfolding fmul_def
    by (subst round64_eval [of 5]) (simp_all add: roundGrid_def roundEven_def Let_def)
  show ?thesis by (simp only: imageLogoHeight_def n a b)
qed

lemma corner_threshold_58_29:
  "fsub (fsub screenHeight (imageLogoHeight 58 29)) cornerTolerance = 535"
proof -
  have "round64 (540 - 1 / 2 ^ 47) = 540"
    by (subst round64_eval [of 9]) (simp_all add: roundGrid_def roundEven_def Let_def)
  then have "fsub screenHeight (imageLogoHeight 58 29) = 540"
    by (simp add: fsub_def imageLogoHeight_58_29 const_defs)
  then show ?thesis by (simp add: fsub_def const_defs)
qed

lemma corner_band_edge_58_29:
  "validStart 0 533 (imageLogoHeight 58 29)
   \<and> logoX (snd (Update noInput (NewGame 0 533 (imageLogoHeight 58 29)))) = 2
   \<and> logoY (snd (Update noInput (NewGame 0 533 (imageLogoHeight 58 29)))) = 535
   \<and> \<not> hitCorner (snd (Update noInput (NewGame 0 533 (imageLogoHeight 58 29))))
   \<and> cornerHits (snd (Update noInput (NewGame 0 533 (imageLogoHeight 58 29)))) = 0"
proof -
  define g where "g = handleKeyPresses noInput (NewGame 0 533 (imageLogoHeight 58 29))"
  have k: "\<not> paused g"
    by (simp add: g_def key_defs noInput_def NewGame_def)
  have m: "logoX (move g) = 2" "logoY (move g) = 535"
    "logoHeight (move g) = imageLogoHeight 58 29" "cornerHits (move g) = 0"
    by (simp_all add: g_def move_def NewGame_def fadd_def const_defs)
  have "round64 (595 + 1 / 2 ^ 47) = 595"
    by (subst round64_eval [of 9]) (simp_all add: roundGrid_def roundEven_def Let_def)
  then have s: "fadd 535 (imageLogoHeight 58 29) = 595"
    by (simp add: fadd_def imageLogoHeight_58_29)
  have c: "logoX (collide (move g)) = 2" "logoY (collide (move g)) = 535"
    using m s by (simp_all add: collide_logoX collide_logoY Let_def fadd_def const_defs)
  have n: "\<not> nearCorner (collide (move g))"
    using c m(3) by (simp add: nearCorner_def corner_threshold_58_29) (simp add: const_defs)
  have u: "snd (Update noInput (NewGame 0 533 (imageLogoHeight 58 29))) = advance noInput g"
    using k by (simp add: Update_def g_def)
  have v: "validStart 0 533 (imageLogoHeight 58 29)"
    by (simp add: validStart_def goInt_def imageLogoHeight_58_29)
  from c n m(4) v show ?thesis by (simp add: u advance_corner) (simp add: advance_def)
qed



subsection \<open>C8: the bounce at the left wall\<close>

text \<open>
  Claim C8. From a state with \<open>logoX = 0\<close> and \<open>velocityX = -2\<close>, one running tick
  without the mouse button ends with \<open>logoX = 0\<close> (clamped) and \<open>velocityX = 2\<close>
  (reflected).
\<close>

theorem wall_bounce_left:
  assumes "logoX g = 0" and "velocityX g = - 2" and "\<not> IsMouseButtonPressed inp"
  shows "logoX (advance inp g) = 0 \<and> velocityX (advance inp g) = 2
       \<and> (\<not> paused (handleKeyPresses inp g)
            \<longrightarrow> logoX (snd (Update inp g)) = 0 \<and> velocityX (snd (Update inp g)) = 2)"
proof -
  have a: "logoX (advance inp g) = 0 \<and> velocityX (advance inp g) = 2"
    if "logoX g = 0" and "velocityX g = - 2" for g
    using that assms(3)
    by (simp add: advance_def move_def collide_defs const_defs fadd_def)
  show ?thesis
    using Update_cases [of inp g] a [of g] a [of "handleKeyPresses inp g"] assms by auto
qed

theorem wall_bounce_left_witness:
  "logoX ((NewGame 0 100 60)\<lparr>velocityX := - 2\<rparr>) = 0
   \<and> velocityX ((NewGame 0 100 60)\<lparr>velocityX := - 2\<rparr>) = - 2
   \<and> \<not> IsMouseButtonPressed noInput
   \<and> \<not> paused (handleKeyPresses noInput ((NewGame 0 100 60)\<lparr>velocityX := - 2\<rparr>))
   \<and> logoX (snd (Update noInput ((NewGame 0 100 60)\<lparr>velocityX := - 2\<rparr>))) = 0
   \<and> velocityX (snd (Update noInput ((NewGame 0 100 60)\<lparr>velocityX := - 2\<rparr>))) = 2"
  using wall_bounce_left [of "(NewGame 0 100 60)\<lparr>velocityX := - 2\<rparr>" noInput]
  by (simp add: NewGame_def key_defs noInput_def)

subsection \<open>C9: a logo at rest stays where it is\<close>

lemma afterBorders_at_rest:
  assumes "afterBorders g" and "velocityX g = 0" and "velocityY g = 0"
  shows "logoX (collide (move g)) = logoX g \<and> logoY (collide (move g)) = logoY g
       \<and> velocityX (collide (move g)) = 0 \<and> velocityY (collide (move g)) = 0"
proof -
  from assms(1) have fx: "round64 (logoX g) = logoX g" and fy: "round64 (logoY g) = logoY g"
    and x: "0 \<le> logoX g" "logoX g \<le> 680" and y: "0 \<le> logoY g"
    and d: "fadd (logoY g) (logoHeight g) \<le> screenHeight
            \<or> logoY g = fsub screenHeight (logoHeight g)"
    by (simp_all add: afterBorders_def isFloat64_def const_defs)
  have m: "logoX (move g) = logoX g" "logoY (move g) = logoY g"
    "logoHeight (move g) = logoHeight g"
    using assms(2,3) fx fy by (simp_all add: move_def fadd_def)
  have "logoX g + 120 \<le> 800" using x(2) by simp
  then have "round64 (logoX g + 120) \<le> round64 800" by (rule round64_mono)
  then have r: "\<not> fadd (logoX g) logoWidth > screenWidth"
    by (simp add: fadd_def const_defs)
  have px: "logoX (collide (move g)) = logoX g"
    using x(1) r by (simp add: collide_logoX m Let_def)
  have py: "logoY (collide (move g)) = logoY g"
    using y d by (auto simp: collide_logoY m Let_def)
  have "velocityX (collide (move g)) = 0" "velocityY (collide (move g)) = 0"
    using collide_abs_velocity [of "move g"] assms(2,3)
    by (simp_all del: collide_abs_velocity)
  with px py show ?thesis by simp
qed

lemma advance_at_rest:
  assumes "afterBorders g" and "velocityX g = 0" and "velocityY g = 0"
    and "\<not> IsMouseButtonPressed inp"
  shows "logoX (advance inp g) = logoX g \<and> logoY (advance inp g) = logoY g
       \<and> velocityX (advance inp g) = 0 \<and> velocityY (advance inp g) = 0"
  using afterBorders_at_rest [OF assms(1-3)] assms(4) by (simp add: advance_def)

text \<open>
  Claim C9. For every state that a run of ticks from a first state of \<open>main\<close>
  reaches and that has velocity \<open>(0, 0)\<close>, a tick without the mouse button leaves
  position and velocity unchanged, in the physics step and in \<open>Update\<close> as a whole
  (the corner counter and the corner flag are not part of the statement).
\<close>

theorem zero_velocity_fixed:
  assumes "validStart rx ry h" and "g = snd (RunGame (NewGame rx ry h) inps)"
    and "velocityX g = 0" and "velocityY g = 0" and "\<not> IsMouseButtonPressed inp"
  shows "logoX (advance inp g) = logoX g \<and> logoY (advance inp g) = logoY g
       \<and> velocityX (advance inp g) = 0 \<and> velocityY (advance inp g) = 0
       \<and> logoX (snd (Update inp g)) = logoX g \<and> logoY (snd (Update inp g)) = logoY g
       \<and> velocityX (snd (Update inp g)) = 0 \<and> velocityY (snd (Update inp g)) = 0"
proof -
  have "afterBorders (snd (RunGame (NewGame rx ry h) inps))"
    using Update_afterBorders NewGame_afterBorders [OF assms(1)]
    by (rule RunGame_invariant)
  then have a: "afterBorders g" by (simp only: assms(2))
  then have "afterBorders (handleKeyPresses inp g)" by (simp add: afterBorders_def)
  from advance_at_rest [OF this _ _ assms(5)] advance_at_rest [OF a assms(3-5)]
    assms(3,4) Update_cases [of inp g]
  show ?thesis by auto
qed

theorem zero_velocity_fixed_witness:
  "validStart 0 0 60
   \<and> velocityX (snd (RunGame (NewGame 0 0 60) [mouseAt (- 3938) (- 3968)])) = 0
   \<and> velocityY (snd (RunGame (NewGame 0 0 60) [mouseAt (- 3938) (- 3968)])) = 0
   \<and> \<not> IsMouseButtonPressed noInput
   \<and> logoX (snd (RunGame (NewGame 0 0 60) [mouseAt (- 3938) (- 3968)])) = 2
   \<and> logoY (snd (RunGame (NewGame 0 0 60) [mouseAt (- 3938) (- 3968)])) = 2
   \<and> logoX (snd (Update noInput
        (snd (RunGame (NewGame 0 0 60) [mouseAt (- 3938) (- 3968)])))) = 2
   \<and> logoY (snd (Update noInput
        (snd (RunGame (NewGame 0 0 60) [mouseAt (- 3938) (- 3968)])))) = 2
   \<and> velocityX (snd (Update noInput
        (snd (RunGame (NewGame 0 0 60) [mouseAt (- 3938) (- 3968)])))) = 0
   \<and> velocityY (snd (Update noInput
        (snd (RunGame (NewGame 0 0 60) [mouseAt (- 3938) (- 3968)])))) = 0"
proof -
  have s: "velocityX (snd (RunGame (NewGame 0 0 60) [mouseAt (- 3938) (- 3968)])) = 0"
    "velocityY (snd (RunGame (NewGame 0 0 60) [mouseAt (- 3938) (- 3968)])) = 0"
    "logoX (snd (RunGame (NewGame 0 0 60) [mouseAt (- 3938) (- 3968)])) = 2"
    "logoY (snd (RunGame (NewGame 0 0 60) [mouseAt (- 3938) (- 3968)])) = 2"
    by (simp_all add: Update_def key_defs phys_defs const_defs mouseAt_def NewGame_def)
  have v: "validStart 0 0 60" by (simp add: validStart_def goInt_def)
  have n: "\<not> IsMouseButtonPressed noInput" by (simp add: noInput_def)
  from zero_velocity_fixed [OF v refl s(1,2) n] s v n show ?thesis
    by (simp del: RunGame.simps)
qed

subsection \<open>C10: without the mouse, the speed on each axis is kept\<close>

text \<open>
  Claim C10. On a tick where the mouse button is not held, the physics step keeps the
  absolute value of each velocity component: the border tests only negate a component.
  The same holds for \<open>Update\<close> as a whole, where a paused tick changes nothing.
\<close>

theorem speed_preserved_without_mouse:
  assumes "\<not> IsMouseButtonPressed inp"
  shows "\<bar>velocityX (advance inp g)\<bar> = \<bar>velocityX g\<bar>
       \<and> \<bar>velocityY (advance inp g)\<bar> = \<bar>velocityY g\<bar>
       \<and> \<bar>velocityX (snd (Update inp g))\<bar> = \<bar>velocityX g\<bar>
       \<and> \<bar>velocityY (snd (Update inp g))\<bar> = \<bar>velocityY g\<bar>"
proof -
  have a: "\<bar>velocityX (advance inp g)\<bar> = \<bar>velocityX g\<bar>
       \<and> \<bar>velocityY (advance inp g)\<bar> = \<bar>velocityY g\<bar>" for g
    using assms by (simp add: advance_def)
  show ?thesis
    using Update_cases [of inp g] a [of g] a [of "handleKeyPresses inp g"] by auto
qed

theorem speed_preserved_without_mouse_witness:
  "\<not> IsMouseButtonPressed noInput
   \<and> velocityX (advance noInput (NewGame 679 0 60)) = - 2
   \<and> \<bar>velocityX (advance noInput (NewGame 679 0 60))\<bar> = \<bar>velocityX (NewGame 679 0 60)\<bar>
   \<and> \<bar>velocityY (snd (Update noInput (NewGame 679 0 60)))\<bar> = \<bar>velocityY (NewGame 679 0 60)\<bar>"
  using speed_preserved_without_mouse [of noInput "NewGame 679 0 60"]
  by (simp add: NewGame_def const_defs phys_defs noInput_def)

end
